theory Spec2Isabelle
  imports Complex_Main
begin

section \<open>JavaScript numbers\<close>

text \<open>
  The clustering code computes on JavaScript numbers, that is IEEE 754 doubles. A number
  is modelled as a finite real or one of the three special values. An arithmetic
  operation first has an exact result on these values (\<open>ex_add\<close>, \<open>ex_mul\<close>,
  \<open>ex_div\<close>, \<open>ex_sqrt\<close>: the special values follow IEEE 754) and a finite exact
  result is then rounded to a double. The rounding is a parameter of the model, the
  record \<open>arith\<close>: \<open>fl\<close> rounds the exact result of \<open>+\<close>, \<open>-\<close>, \<open>*\<close>, \<open>/\<close>,
  \<open>Math.sqrt\<close> and the value of a decimal literal (it may overflow to an infinity or
  underflow to \<open>0\<close>), \<open>fl_exp\<close> and \<open>fl_log\<close> are \<open>Math.exp\<close> and \<open>Math.log\<close> on a
  finite argument, whose accuracy ECMAScript leaves to the implementation. Every
  function below takes the arithmetic \<open>ar\<close> as its first argument, and a statement
  proved for every \<open>ar\<close> holds for the doubles of any engine. Comparisons, negation,
  \<open>Math.min\<close> and \<open>Math.max\<close> do not round.

  Signed zeros are not distinguished: every zero divisor that the code below can
  produce is a sum of squares or a product of square roots, hence \<open>+0\<close>.
  Reading an array past its end gives \<open>undefined\<close>, which every arithmetic operator
  turns into \<open>NaN\<close>; \<open>js_nth\<close> returns that \<open>NaN\<close> directly.
\<close>

datatype number = Fin real | PInf | NInf | NaN

record arith =
  fl :: "real \<Rightarrow> number"
  fl_exp :: "real \<Rightarrow> number"
  fl_log :: "real \<Rightarrow> number"

definition rounded :: "arith \<Rightarrow> number \<Rightarrow> number" where
  "rounded ar x = (case x of Fin c \<Rightarrow> fl ar c | _ \<Rightarrow> x)"

fun js_neg :: "number \<Rightarrow> number" where
  "js_neg (Fin a) = Fin (- a)"
| "js_neg PInf = NInf"
| "js_neg NInf = PInf"
| "js_neg NaN = NaN"

fun ex_add :: "number \<Rightarrow> number \<Rightarrow> number" where
  "ex_add NaN _ = NaN"
| "ex_add _ NaN = NaN"
| "ex_add (Fin a) (Fin b) = Fin (a + b)"
| "ex_add PInf NInf = NaN"
| "ex_add NInf PInf = NaN"
| "ex_add PInf _ = PInf"
| "ex_add _ PInf = PInf"
| "ex_add NInf _ = NInf"
| "ex_add _ NInf = NInf"

fun ex_mul :: "number \<Rightarrow> number \<Rightarrow> number" where
  "ex_mul NaN _ = NaN"
| "ex_mul _ NaN = NaN"
| "ex_mul (Fin a) (Fin b) = Fin (a * b)"
| "ex_mul (Fin a) PInf = (if a = 0 then NaN else if 0 < a then PInf else NInf)"
| "ex_mul (Fin a) NInf = (if a = 0 then NaN else if 0 < a then NInf else PInf)"
| "ex_mul PInf (Fin b) = (if b = 0 then NaN else if 0 < b then PInf else NInf)"
| "ex_mul NInf (Fin b) = (if b = 0 then NaN else if 0 < b then NInf else PInf)"
| "ex_mul PInf PInf = PInf"
| "ex_mul PInf NInf = NInf"
| "ex_mul NInf PInf = NInf"
| "ex_mul NInf NInf = PInf"

fun ex_div :: "number \<Rightarrow> number \<Rightarrow> number" where
  "ex_div NaN _ = NaN"
| "ex_div _ NaN = NaN"
| "ex_div (Fin a) (Fin b) =
     (if b = 0 then (if a = 0 then NaN else if 0 < a then PInf else NInf)
      else Fin (a / b))"
| "ex_div (Fin a) _ = Fin 0"
| "ex_div PInf (Fin b) = (if 0 \<le> b then PInf else NInf)"
| "ex_div NInf (Fin b) = (if 0 \<le> b then NInf else PInf)"
| "ex_div _ _ = NaN"

fun ex_sqrt :: "number \<Rightarrow> number" where
  "ex_sqrt (Fin a) = (if a < 0 then NaN else Fin (sqrt a))"
| "ex_sqrt PInf = PInf"
| "ex_sqrt _ = NaN"

text \<open>The operators \<open>a + b\<close>, \<open>a - b\<close>, \<open>a * b\<close>, \<open>a / b\<close>, \<open>x ** 2\<close> and
  \<open>Math.sqrt\<close>, \<open>Math.exp\<close>, \<open>Math.log\<close>.\<close>

definition js_add :: "arith \<Rightarrow> number \<Rightarrow> number \<Rightarrow> number" where
  "js_add ar a b = rounded ar (ex_add a b)"

definition js_sub :: "arith \<Rightarrow> number \<Rightarrow> number \<Rightarrow> number" where
  "js_sub ar a b = rounded ar (ex_add a (js_neg b))"

definition js_mul :: "arith \<Rightarrow> number \<Rightarrow> number \<Rightarrow> number" where
  "js_mul ar a b = rounded ar (ex_mul a b)"

definition js_div :: "arith \<Rightarrow> number \<Rightarrow> number \<Rightarrow> number" where
  "js_div ar a b = rounded ar (ex_div a b)"

definition js_sq :: "arith \<Rightarrow> number \<Rightarrow> number" where
  "js_sq ar x = js_mul ar x x"

definition Math_sqrt :: "arith \<Rightarrow> number \<Rightarrow> number" where
  "Math_sqrt ar x = rounded ar (ex_sqrt x)"

fun Math_exp :: "arith \<Rightarrow> number \<Rightarrow> number" where
  "Math_exp ar (Fin a) = fl_exp ar a"
| "Math_exp ar PInf = PInf"
| "Math_exp ar NInf = Fin 0"
| "Math_exp ar NaN = NaN"

fun Math_log :: "arith \<Rightarrow> number \<Rightarrow> number" where
  "Math_log ar (Fin a) = (if a < 0 then NaN else if a = 0 then NInf else fl_log ar a)"
| "Math_log ar PInf = PInf"
| "Math_log ar _ = NaN"

text \<open>
  The arithmetic \<open>ideal\<close> does not round. It keeps one effect of the double format:
  no double lies strictly between \<open>0\<close> and \<open>2 ^ -1074\<close>, so \<open>Math.exp\<close> returns \<open>0\<close> for
  an argument whose exponential is below \<open>2 ^ -1075\<close>, that is for an argument below
  \<open>-1075 \<cdot> ln 2\<close> (about \<open>-745.13\<close>). Concrete runs below are evaluated in this
  arithmetic.
\<close>

definition ideal :: arith where
  "ideal = \<lparr>fl = Fin,
            fl_exp = (\<lambda>a. if a < - (1075 * ln 2) then Fin 0 else Fin (exp a)),
            fl_log = (\<lambda>a. Fin (ln a))\<rparr>"

fun js_lt :: "number \<Rightarrow> number \<Rightarrow> bool" where
  "js_lt NaN _ = False"
| "js_lt _ NaN = False"
| "js_lt (Fin a) (Fin b) = (a < b)"
| "js_lt (Fin a) PInf = True"
| "js_lt NInf (Fin b) = True"
| "js_lt NInf PInf = True"
| "js_lt _ _ = False"

fun js_le :: "number \<Rightarrow> number \<Rightarrow> bool" where
  "js_le NaN _ = False"
| "js_le _ NaN = False"
| "js_le (Fin a) (Fin b) = (a \<le> b)"
| "js_le _ PInf = True"
| "js_le NInf _ = True"
| "js_le _ _ = False"

definition js_gt :: "number \<Rightarrow> number \<Rightarrow> bool" where
  "js_gt a b = js_lt b a"

definition js_ge :: "number \<Rightarrow> number \<Rightarrow> bool" where
  "js_ge a b = js_le b a"

text \<open>\<open>Math.min(...xs)\<close> and \<open>Math.max(...xs)\<close>: \<open>NaN\<close> is contagious, the empty
  list gives \<open>Infinity\<close> and \<open>-Infinity\<close>.\<close>

definition js_min2 :: "number \<Rightarrow> number \<Rightarrow> number" where
  "js_min2 a b = (if a = NaN \<or> b = NaN then NaN else if js_lt b a then b else a)"

definition js_max2 :: "number \<Rightarrow> number \<Rightarrow> number" where
  "js_max2 a b = (if a = NaN \<or> b = NaN then NaN else if js_lt a b then b else a)"

definition Math_min :: "number list \<Rightarrow> number" where
  "Math_min xs = foldl js_min2 PInf xs"

definition Math_max :: "number list \<Rightarrow> number" where
  "Math_max xs = foldl js_max2 NInf xs"

definition js_nth :: "number list \<Rightarrow> nat \<Rightarrow> number" where
  "js_nth xs i = (if i < length xs then xs ! i else NaN)"

text \<open>
  \<open>Math.random()\<close> returns a number in \<open>[0, 1)\<close>. The source of randomness is a
  stream \<open>rnd\<close> of arbitrary reals read at a counter that every draw advances; the
  draw is the fractional part, so each stream is a legal run of the generator and every
  run is some stream.
\<close>

definition Math_random :: "(nat \<Rightarrow> real) \<Rightarrow> nat \<Rightarrow> real" where
  "Math_random rnd s = frac (rnd s)"

text \<open>\<open>Math.floor(Math.random() * n)\<close>\<close>

definition randomIndex :: "(nat \<Rightarrow> real) \<Rightarrow> nat \<Rightarrow> nat \<Rightarrow> nat" where
  "randomIndex rnd s n = nat \<lfloor>Math_random rnd s * real n\<rfloor>"

section \<open>Math utilities\<close>

type_synonym vec = "number list"

text \<open>\<open>Math.sqrt(a.reduce((sum, val, i) => sum + (val - b[i]) ** 2, 0))\<close>\<close>

definition euclideanDistance :: "arith \<Rightarrow> vec \<Rightarrow> vec \<Rightarrow> number" where
  "euclideanDistance ar a b =
     Math_sqrt ar (foldl (\<lambda>sum (i, val). js_add ar sum (js_sq ar (js_sub ar val (js_nth b i))))
                  (Fin 0) (enumerate 0 a))"

definition meanVector :: "arith \<Rightarrow> vec list \<Rightarrow> vec" where
  "meanVector ar vectors =
     (if vectors = [] then []
      else
        let dims = length (hd vectors);
            mean = foldl (\<lambda>mean v. map (\<lambda>i. js_add ar (mean ! i) (js_nth v i)) [0..<dims])
                     (replicate dims (Fin 0)) vectors
        in map (\<lambda>x. js_div ar x (Fin (real (length vectors)))) mean)"

text \<open>\<open>arraysEqual\<close> is only applied to assignment vectors, whose entries are cluster
  indices; on those \<open>===\<close> is equality of naturals.\<close>

definition arraysEqual :: "nat list \<Rightarrow> nat list \<Rightarrow> bool" where
  "arraysEqual a b =
     (length a = length b \<and> list_all (\<lambda>(i, v). v = b ! i) (enumerate 0 a))"

text \<open>The scan for the nearest centroid, shared verbatim by \<open>kMeans\<close> and
  \<open>miniBatchKMeans\<close>: \<open>minDist = Infinity\<close>, \<open>minIdx = 0\<close>, and a strict
  comparison for \<open>i = 0 .. k-1\<close>.\<close>

definition nearestStep :: "arith \<Rightarrow> vec \<Rightarrow> vec list \<Rightarrow> number \<times> nat \<Rightarrow> nat \<Rightarrow> number \<times> nat" where
  "nearestStep ar v centroids st i =
     (let dist = euclideanDistance ar v (centroids ! i)
      in if js_lt dist (fst st) then (dist, i) else st)"

definition nearest :: "arith \<Rightarrow> vec \<Rightarrow> vec list \<Rightarrow> nat \<Rightarrow> nat" where
  "nearest ar v centroids k = snd (foldl (nearestStep ar v centroids) (PInf, 0) [0..<k])"

section \<open>K-means\<close>

text \<open>
  Counts and indices (\<open>k\<close>, \<open>maxIterations\<close>, \<open>batchSize\<close>, lengths, cluster ids) are
  numbers that hold integers; they are modelled as \<open>int\<close> where the code accepts a
  negative value and as \<open>nat\<close> where it indexes with them. The centroid array has \<open>k\<close>
  entries throughout, and every drawn or scanned index is below the length of the array
  it reads (\<open>randomIndex_lt\<close>, \<open>pickWeighted_range\<close>, \<open>nearest_lt\<close>,
  \<open>length_kMeansPlusPlusInit\<close>, \<open>length_updateCentroids\<close> below), so the list
  reads \<open>!\<close> and updates of these definitions are in range.
\<close>

text \<open>Thrown values: \<open>new Error(msg)\<close>, and the \<open>TypeError\<close> of a property read on
  \<open>undefined\<close>.\<close>

datatype js_error = Error string | TypeError

text \<open>k-means++ seeding. \<open>pickWeighted\<close> is the inner scan
  \<open>threshold -= distances[j]; if (threshold <= 0) ...; break\<close>; it returns the index
  chosen, or \<open>None\<close> when the scan ends without a choice and the fallback draws a
  uniform index.\<close>

fun pickWeighted :: "arith \<Rightarrow> number \<Rightarrow> number list \<Rightarrow> nat \<Rightarrow> nat option" where
  "pickWeighted ar threshold [] j = None"
| "pickWeighted ar threshold (d # ds) j =
     (let threshold' = js_sub ar threshold d
      in if js_le threshold' (Fin 0) then Some j else pickWeighted ar threshold' ds (Suc j))"

fun seedLoop :: "arith \<Rightarrow> (nat \<Rightarrow> real) \<Rightarrow> vec list \<Rightarrow> nat \<Rightarrow> vec list \<times> nat \<Rightarrow> vec list \<times> nat" where
  "seedLoop ar rnd vectors 0 st = st"
| "seedLoop ar rnd vectors (Suc m) (centroids, s) =
     (let distances =
            map (\<lambda>v. let minDist = Math_min (map (\<lambda>c. euclideanDistance ar v c) centroids)
                     in js_mul ar minDist minDist) vectors;
          totalDist = foldl (js_add ar) (Fin 0) distances;
          threshold = js_mul ar (Fin (Math_random rnd s)) totalDist
      in case pickWeighted ar threshold distances 0 of
           Some j \<Rightarrow> seedLoop ar rnd vectors m (centroids @ [vectors ! j], Suc s)
         | None \<Rightarrow>
             seedLoop ar rnd vectors m
               (centroids @ [vectors ! randomIndex rnd (Suc s) (length vectors)], Suc (Suc s)))"

definition kMeansPlusPlusInit ::
  "arith \<Rightarrow> (nat \<Rightarrow> real) \<Rightarrow> vec list \<Rightarrow> int \<Rightarrow> nat \<Rightarrow> vec list \<times> nat" where
  "kMeansPlusPlusInit ar rnd vectors k s =
     (let firstIdx = randomIndex rnd s (length vectors)
      in seedLoop ar rnd vectors (nat (k - 1)) ([vectors ! firstIdx], Suc s))"

text \<open>The centroid update of one iteration: for \<open>i = 0 .. k-1\<close>, the members of
  cluster \<open>i\<close> are filtered out of \<open>vectors\<close> and, when there are any, their mean
  replaces \<open>centroids[i]\<close>.\<close>

definition clusterVectors :: "vec list \<Rightarrow> nat list \<Rightarrow> nat \<Rightarrow> vec list" where
  "clusterVectors vectors assignments i =
     map snd (filter (\<lambda>(idx, v). assignments ! idx = i) (enumerate 0 vectors))"

definition updateCentroids :: "arith \<Rightarrow> vec list \<Rightarrow> nat \<Rightarrow> nat list \<Rightarrow> vec list \<Rightarrow> vec list" where
  "updateCentroids ar vectors k assignments centroids =
     foldl (\<lambda>cs i. let cv = clusterVectors vectors assignments i
                   in if 0 < length cv then cs[i := meanVector ar cv] else cs)
       centroids [0..<k]"

text \<open>The main loop; the first argument counts the iterations left
  (\<open>maxIterations - iter\<close>).\<close>

fun kMeansLoop ::
  "arith \<Rightarrow> nat \<Rightarrow> vec list \<Rightarrow> nat \<Rightarrow> vec list \<Rightarrow> nat list \<Rightarrow> vec list \<times> nat list" where
  "kMeansLoop ar 0 vectors k centroids assignments = (centroids, assignments)"
| "kMeansLoop ar (Suc m) vectors k centroids assignments =
     (let newAssignments = map (\<lambda>v. nearest ar v centroids k) vectors
      in if arraysEqual assignments newAssignments then (centroids, assignments)
         else kMeansLoop ar m vectors k
                (updateCentroids ar vectors k newAssignments centroids) newAssignments)"

text \<open>\<open>kMeans\<close> returns the centroids, the assignments and the advanced random counter,
  or the error it throws; it throws before the first draw.\<close>

definition kMeans ::
  "arith \<Rightarrow> (nat \<Rightarrow> real) \<Rightarrow> vec list \<Rightarrow> int \<Rightarrow> int \<Rightarrow> nat
     \<Rightarrow> js_error + ((vec list \<times> nat list) \<times> nat)" where
  "kMeans ar rnd vectors k maxIterations s =
     (if length vectors = 0 then Inl (Error ''Cannot cluster empty vector array'')
      else if k \<le> 0 then Inl (Error ''k must be positive'')
      else if k > int (length vectors) then Inl (Error ''k cannot exceed number of vectors'')
      else
        let (centroids, s') = kMeansPlusPlusInit ar rnd vectors k s;
            assignments = replicate (length vectors) 0
        in Inr (kMeansLoop ar (nat maxIterations) vectors (nat k) centroids assignments, s'))"

section \<open>The clustering service\<close>

record embedding =
  emb_id :: string
  vector :: vec

record Cluster =
  cl_id :: nat
  cl_centroid :: vec
  cl_size :: nat

record ClusterAssignment =
  ca_id :: string
  ca_clusterId :: nat
  ca_distance :: number

record ClusterResult =
  res_clusters :: "Cluster list"
  res_assignments :: "ClusterAssignment list"

record ClusterOptions =
  opt_k :: int
  opt_maxIterations :: "int option"

datatype ClusteringError = ClusteringError string

text \<open>\<open>String(e)\<close> of a thrown \<open>Error\<close>\<close>

fun String_of :: "js_error \<Rightarrow> string" where
  "String_of (Error msg) = ''Error: '' @ msg"
| "String_of TypeError = ''TypeError''"

text \<open>The result construction shared by \<open>cluster\<close> and \<open>clusterMiniBatch\<close>.\<close>

definition buildResult :: "arith \<Rightarrow> embedding list \<Rightarrow> vec list \<Rightarrow> nat list \<Rightarrow> ClusterResult" where
  "buildResult ar embeddings centroids assignments =
     (let vectors = map vector embeddings
      in \<lparr>res_clusters =
            map (\<lambda>(cid, c). \<lparr>cl_id = cid, cl_centroid = c,
                              cl_size = length (filter (\<lambda>a. a = cid) assignments)\<rparr>)
              (enumerate 0 centroids),
          res_assignments =
            map (\<lambda>(idx, e). \<lparr>ca_id = emb_id e, ca_clusterId = assignments ! idx,
                              ca_distance = euclideanDistance ar (vectors ! idx)
                                           (centroids ! (assignments ! idx))\<rparr>)
              (enumerate 0 embeddings)\<rparr>)"

definition cluster ::
  "arith \<Rightarrow> (nat \<Rightarrow> real) \<Rightarrow> embedding list \<Rightarrow> ClusterOptions \<Rightarrow> nat
     \<Rightarrow> ClusteringError + (ClusterResult \<times> nat)" where
  "cluster ar rnd embeddings options s =
     (let vectors = map vector embeddings
      in case kMeans ar rnd vectors (opt_k options)
                (case opt_maxIterations options of None \<Rightarrow> 100 | Some m \<Rightarrow> m) s of
           Inl e \<Rightarrow> Inl (ClusteringError (String_of e))
         | Inr ((centroids, assignments), s') \<Rightarrow>
             Inr (buildResult ar embeddings centroids assignments, s'))"

section \<open>Mini-batch k-means\<close>

definition centroidDelta :: "arith \<Rightarrow> vec list \<Rightarrow> vec list \<Rightarrow> number" where
  "centroidDelta ar oldCentroids newCentroids =
     Math_sqrt ar
       (foldl (\<lambda>sumSq i.
            foldl (\<lambda>sumSq d.
                 let diff = js_sub ar (oldCentroids ! i ! d) (js_nth (newCentroids ! i) d)
                 in js_add ar sumSq (js_mul ar diff diff))
              sumSq [0..<length (oldCentroids ! i)])
          (Fin 0) [0..<length oldCentroids])"

text \<open>
  The sampling loop draws indices until the batch holds \<open>actualBatchSize\<close> distinct
  ones. Nothing bounds the number of draws, so the loop is a partial function:
  \<open>None\<close> is the run that never leaves it. (\<open>batchSet\<close> holds exactly the elements of
  \<open>batchIndices\<close>.)
\<close>

partial_function (option) sampleBatch ::
  "(nat \<Rightarrow> real) \<Rightarrow> nat \<Rightarrow> int \<Rightarrow> nat list \<Rightarrow> nat \<Rightarrow> (nat list \<times> nat) option" where
  "sampleBatch rnd n actualBatchSize batchIndices s =
     (if int (length batchIndices) < actualBatchSize then
        (if randomIndex rnd s n \<in> set batchIndices
         then sampleBatch rnd n actualBatchSize batchIndices (Suc s)
         else sampleBatch rnd n actualBatchSize (batchIndices @ [randomIndex rnd s n]) (Suc s))
      else Some (batchIndices, s))"

text \<open>One incremental update \<open>c = (1 - eta) * c + eta * x\<close> of the centroid a sampled
  point was assigned to, with \<open>eta = 1 / centroidCounts[clusterIdx]\<close> after the count is
  incremented.\<close>

definition updateOne ::
  "arith \<Rightarrow> vec list \<Rightarrow> vec list \<times> nat list \<Rightarrow> nat \<times> nat \<Rightarrow> vec list \<times> nat list" where
  "updateOne ar vectors st p =
     (let centroids = fst st; centroidCounts = snd st;
          vectorIdx = fst p; clusterIdx = snd p;
          centroidCounts' = centroidCounts[clusterIdx := centroidCounts ! clusterIdx + 1];
          eta = js_div ar (Fin 1) (Fin (real (centroidCounts' ! clusterIdx)));
          c = centroids ! clusterIdx;
          c' = map (\<lambda>d. js_add ar (js_mul ar (js_sub ar (Fin 1) eta) (c ! d))
                             (js_mul ar eta (js_nth (vectors ! vectorIdx) d)))
                 [0..<length c]
      in (centroids[clusterIdx := c'], centroidCounts'))"

definition batchUpdate ::
  "arith \<Rightarrow> vec list \<Rightarrow> nat \<Rightarrow> vec list \<times> nat list \<Rightarrow> nat list \<Rightarrow> vec list \<times> nat list" where
  "batchUpdate ar vectors k st batchIndices =
     (let batchAssignments = map (\<lambda>idx. nearest ar (vectors ! idx) (fst st) k) batchIndices
      in foldl (updateOne ar vectors) st (zip batchIndices batchAssignments))"

text \<open>The iteration loop. The state is the centroids, the per-centroid counts, the
  centroids of the last convergence check and the random counter; the first argument
  counts the iterations left, \<open>iter\<close> is the source's loop variable.\<close>

fun miniBatchLoop ::
  "arith \<Rightarrow> nat \<Rightarrow> (nat \<Rightarrow> real) \<Rightarrow> vec list \<Rightarrow> nat \<Rightarrow> int \<Rightarrow> nat
     \<Rightarrow> vec list \<times> nat list \<times> vec list \<times> nat
     \<Rightarrow> (vec list \<times> nat list \<times> vec list \<times> nat) option" where
  "miniBatchLoop ar 0 rnd vectors k actualBatchSize iter st = Some st"
| "miniBatchLoop ar (Suc m) rnd vectors k actualBatchSize iter (centroids, centroidCounts, previousCentroids, s) =
     (case sampleBatch rnd (length vectors) actualBatchSize [] s of
        None \<Rightarrow> None
      | Some (batchIndices, s') \<Rightarrow>
          (case batchUpdate ar vectors k (centroids, centroidCounts) batchIndices of
             (centroids', centroidCounts') \<Rightarrow>
               if iter mod 10 = 0 \<and> 0 < iter then
                 (if js_lt (centroidDelta ar previousCentroids centroids') (fl ar (1 / 10 ^ 4))
                  then Some (centroids', centroidCounts', previousCentroids, s')
                  else miniBatchLoop ar m rnd vectors k actualBatchSize (Suc iter)
                         (centroids', centroidCounts', centroids', s'))
               else miniBatchLoop ar m rnd vectors k actualBatchSize (Suc iter)
                      (centroids', centroidCounts', previousCentroids, s')))"

definition miniBatchKMeans ::
  "arith \<Rightarrow> (nat \<Rightarrow> real) \<Rightarrow> vec list \<Rightarrow> int \<Rightarrow> int \<Rightarrow> int \<Rightarrow> nat
     \<Rightarrow> (js_error + ((vec list \<times> nat list) \<times> nat)) option" where
  "miniBatchKMeans ar rnd vectors k batchSize maxIterations s =
     (if length vectors = 0 then Some (Inl (Error ''Cannot cluster empty vector array''))
      else if k \<le> 0 then Some (Inl (Error ''k must be positive''))
      else if k > int (length vectors)
        then Some (Inl (Error ''k cannot exceed number of vectors''))
      else
        let n = length vectors;
            actualBatchSize = min batchSize (int n);
            (centroids, s1) = kMeansPlusPlusInit ar rnd vectors k s;
            centroidCounts = replicate (nat k) 0
        in case miniBatchLoop ar (nat maxIterations) rnd vectors (nat k) actualBatchSize 0
                  (centroids, centroidCounts, centroids, s1) of
             None \<Rightarrow> None
           | Some (centroids', _, _, s2) \<Rightarrow>
               Some (Inr ((centroids', map (\<lambda>v. nearest ar v centroids' (nat k)) vectors), s2)))"

record MiniBatchClusterOptions =
  mb_k :: int
  mb_batchSize :: "int option"
  mb_maxIterations :: "int option"

definition clusterMiniBatch ::
  "arith \<Rightarrow> (nat \<Rightarrow> real) \<Rightarrow> embedding list \<Rightarrow> MiniBatchClusterOptions \<Rightarrow> nat
     \<Rightarrow> (ClusteringError + (ClusterResult \<times> nat)) option" where
  "clusterMiniBatch ar rnd embeddings options s =
     (let vectors = map vector embeddings;
          batchSize = (case mb_batchSize options of None \<Rightarrow> 100 | Some b \<Rightarrow> b);
          maxIterations = (case mb_maxIterations options of None \<Rightarrow> 100 | Some m \<Rightarrow> m)
      in case miniBatchKMeans ar rnd vectors (mb_k options) batchSize maxIterations s of
           None \<Rightarrow> None
         | Some (Inl e) \<Rightarrow> Some (Inl (ClusteringError (String_of e)))
         | Some (Inr ((centroids, assignments), s')) \<Rightarrow>
             Some (Inr (buildResult ar embeddings centroids assignments, s')))"

section \<open>BIC\<close>

text \<open>\<open>calculateBIC\<close> reads \<open>vectors[0].length\<close>, which throws on an empty array; its
  caller only passes the vectors that \<open>kMeans\<close> has just accepted.\<close>

definition calculateBIC :: "arith \<Rightarrow> vec list \<Rightarrow> vec list \<Rightarrow> nat list \<Rightarrow> js_error + number" where
  "calculateBIC ar vectors centroids assignments =
     (case vectors of
        [] \<Rightarrow> Inl TypeError
      | v0 # _ \<Rightarrow>
          let n = length vectors;
              numClusters = length centroids;
              dims = length v0;
              rss = foldl (\<lambda>rss i. js_add ar rss
                             (js_sq ar (euclideanDistance ar (vectors ! i)
                                       (centroids ! (assignments ! i)))))
                      (Fin 0) [0..<n];
              numParams = int numClusters * int dims + (int numClusters - 1);
              bic = js_add ar
                      (js_mul ar (Fin (real n))
                         (Math_log ar (js_div ar (js_add ar rss (fl ar (1 / 10 ^ 10))) (Fin (real n)))))
                      (js_mul ar (Fin (real_of_int numParams)) (Math_log ar (Fin (real n))))
          in Inr bic)"

section \<open>Soft clustering\<close>

definition softmax :: "arith \<Rightarrow> number list \<Rightarrow> number \<Rightarrow> number list" where
  "softmax ar distances temperature =
     (let scores = map (\<lambda>d. js_div ar (js_neg d) temperature) distances;
          maxScore = Math_max scores;
          expScores = map (\<lambda>sc. Math_exp ar (js_sub ar sc maxScore)) scores;
          sumExp = foldl (js_add ar) (Fin 0) expScores
      in map (\<lambda>e. js_div ar e sumExp) expScores)"

record RawSoftAssignment =
  vectorIdx :: nat
  raw_clusterId :: nat
  raw_probability :: number

text \<open>The soft assignments of \<open>softCluster\<close>: for every vector the softmax of its
  distances to the centroids, one entry per cluster \<open>j = 0 .. k-1\<close>.\<close>

definition softAssignmentsOf ::
  "arith \<Rightarrow> vec list \<Rightarrow> vec list \<Rightarrow> int \<Rightarrow> number \<Rightarrow> RawSoftAssignment list" where
  "softAssignmentsOf ar vectors centroids k temperature =
     concat (map (\<lambda>i.
          let distances = map (\<lambda>c. euclideanDistance ar (vectors ! i) c) centroids;
              probs = softmax ar distances temperature
          in map (\<lambda>j. \<lparr>vectorIdx = i, raw_clusterId = j,
                          raw_probability = js_nth probs j\<rparr>) [0..<nat k])
        [0..<length vectors])"

definition softCluster ::
  "arith \<Rightarrow> (nat \<Rightarrow> real) \<Rightarrow> vec list \<Rightarrow> int \<Rightarrow> int \<Rightarrow> number \<Rightarrow> nat
     \<Rightarrow> js_error + ((vec list \<times> RawSoftAssignment list) \<times> nat)" where
  "softCluster ar rnd vectors k maxIterations temperature s =
     (case kMeans ar rnd vectors k maxIterations s of
        Inl e \<Rightarrow> Inl e
      | Inr ((centroids, _), s') \<Rightarrow>
          Inr ((centroids, softAssignmentsOf ar vectors centroids k temperature), s'))"

record SoftClusterAssignment =
  chunkId :: string
  sa_clusterId :: nat
  probability :: number

record ClusterCentroid =
  cc_clusterId :: nat
  cc_vector :: vec

record Metadata =
  bicScores :: "(int \<times> number) list option"
  selectedK :: "int option"

record SoftClusterResult =
  numClusters :: int
  softAssignments :: "SoftClusterAssignment list"
  sr_centroids :: "ClusterCentroid list"
  metadata :: "Metadata option"

record SoftClusterOptions =
  so_maxClusters :: "int option"
  so_minProbability :: "number option"
  so_useBIC :: "bool option"
  so_maxIterations :: "int option"

text \<open>Decimal rendering of a length or an index inside the error message.\<close>

fun String_of_nat :: "nat \<Rightarrow> string" where
  "String_of_nat n =
     (if n < 10 then [''0123456789'' ! n]
      else String_of_nat (n div 10) @ [''0123456789'' ! (n mod 10)])"

text \<open>The dimension validation of \<open>clusterSoft\<close>: the first index \<open>i \<ge> 1\<close> whose vector
  differs in length from \<open>vectors[0]\<close> is reported.\<close>

fun validateDims :: "vec list \<Rightarrow> nat \<Rightarrow> nat list \<Rightarrow> js_error option" where
  "validateDims vectors dims [] = None"
| "validateDims vectors dims (i # ixs) =
     (if length (vectors ! i) \<noteq> dims
      then Some (Error (''Dimension mismatch: vector '' @ String_of_nat i @ '' has ''
                          @ String_of_nat (length (vectors ! i)) @ '' dims, expected ''
                          @ String_of_nat dims))
      else validateDims vectors dims ixs)"

text \<open>The selection loop over \<open>k = minK .. maxK\<close>. The body of the \<open>try\<close> runs
  \<open>kMeans\<close> and \<open>calculateBIC\<close>; when either throws, the \<open>catch\<close> leaves \<open>bestK\<close>,
  \<open>bestBIC\<close> and \<open>bicScores\<close> as they are and the loop goes on.\<close>

fun bicLoop ::
  "arith \<Rightarrow> (nat \<Rightarrow> real) \<Rightarrow> vec list \<Rightarrow> int \<Rightarrow> int list
     \<Rightarrow> int \<times> number \<times> (int \<times> number) list \<times> nat
     \<Rightarrow> int \<times> number \<times> (int \<times> number) list \<times> nat" where
  "bicLoop ar rnd vectors maxIterations [] st = st"
| "bicLoop ar rnd vectors maxIterations (k # ks) (bestK, bestBIC, scores, s) =
     (case kMeans ar rnd vectors k maxIterations s of
        Inl e \<Rightarrow> bicLoop ar rnd vectors maxIterations ks (bestK, bestBIC, scores, s)
      | Inr ((centroids, assignments), s') \<Rightarrow>
          (case calculateBIC ar vectors centroids assignments of
             Inl e \<Rightarrow> bicLoop ar rnd vectors maxIterations ks (bestK, bestBIC, scores, s')
           | Inr bic \<Rightarrow>
               if js_lt bic bestBIC
               then bicLoop ar rnd vectors maxIterations ks (k, bic, scores @ [(k, bic)], s')
               else bicLoop ar rnd vectors maxIterations ks
                      (bestK, bestBIC, scores @ [(k, bic)], s')))"

definition clusterSoft ::
  "arith \<Rightarrow> (nat \<Rightarrow> real) \<Rightarrow> embedding list \<Rightarrow> SoftClusterOptions \<Rightarrow> nat
     \<Rightarrow> ClusteringError + (SoftClusterResult \<times> nat)" where
  "clusterSoft ar rnd embeddings options s =
     (if length embeddings = 0 then
        Inr (\<lparr>numClusters = 0, softAssignments = [], sr_centroids = [],
              metadata = Some \<lparr>bicScores = None, selectedK = None\<rparr>\<rparr>, s)
      else if length embeddings = 1 then
        Inr (\<lparr>numClusters = 1,
              softAssignments =
                [\<lparr>chunkId = emb_id (embeddings ! 0), sa_clusterId = 0, probability = Fin 1\<rparr>],
              sr_centroids = [\<lparr>cc_clusterId = 0, cc_vector = vector (embeddings ! 0)\<rparr>],
              metadata = Some \<lparr>bicScores = None, selectedK = None\<rparr>\<rparr>, s)
      else
        let vectors = map vector embeddings;
            dims = length (vectors ! 0)
        in case validateDims vectors dims [1..<length vectors] of
             Some e \<Rightarrow> Inl (ClusteringError (String_of e))
           | None \<Rightarrow>
               let maxClusters = (case so_maxClusters options of None \<Rightarrow> 10 | Some m \<Rightarrow> m);
                   minProbability =
                     (case so_minProbability options of None \<Rightarrow> fl ar (1 / 100) | Some p \<Rightarrow> p);
                   useBIC = (case so_useBIC options of None \<Rightarrow> True | Some u \<Rightarrow> u);
                   maxIterations =
                     (case so_maxIterations options of None \<Rightarrow> 100 | Some m \<Rightarrow> m);
                   maxK = min maxClusters (int (length vectors));
                   minK = 1;
                   (bestK, bestBIC, scores, s1) =
                     (if useBIC \<and> maxK > 1
                      then bicLoop ar rnd vectors maxIterations [minK..maxK] (1, PInf, [], s)
                      else (maxK, PInf, [], s))
               in case softCluster ar rnd vectors bestK maxIterations (Fin (1 / 2)) s1 of
                    Inl e \<Rightarrow> Inl (ClusteringError (String_of e))
                  | Inr ((centroids, rawAssignments), s2) \<Rightarrow>
                      Inr (\<lparr>numClusters = bestK,
                            softAssignments =
                              map (\<lambda>a. \<lparr>chunkId = emb_id (embeddings ! vectorIdx a),
                                         sa_clusterId = raw_clusterId a,
                                         probability = raw_probability a\<rparr>)
                                (filter (\<lambda>a. js_ge (raw_probability a) minProbability)
                                   rawAssignments),
                            sr_centroids =
                              map (\<lambda>(idx, v). \<lparr>cc_clusterId = idx, cc_vector = v\<rparr>)
                                (enumerate 0 centroids),
                            metadata =
                              (if useBIC
                               then Some \<lparr>bicScores = Some scores, selectedK = Some bestK\<rparr>
                               else None)\<rparr>, s2))"

section \<open>Mapping clusters to concepts\<close>

record ClusterInput =
  ci_id :: int
  summary :: string
  ci_centroid :: vec

record ConceptInput =
  co_id :: string
  co_label :: string
  co_embedding :: vec

record MapResult =
  mr_clusterId :: int
  matched :: bool
  conceptId :: "string option"
  confidence :: "number option"
  suggestedLabel :: "string option"

datatype ClusterConceptMapperError = ClusterConceptMapperError string

definition cosineSimilarity :: "arith \<Rightarrow> vec \<Rightarrow> vec \<Rightarrow> number" where
  "cosineSimilarity ar a b =
     (if length a \<noteq> length b then Fin 0
      else
        case foldl (\<lambda>(dotProduct, normA, normB) i.
                      (js_add ar dotProduct (js_mul ar (a ! i) (b ! i)),
                       js_add ar normA (js_mul ar (a ! i) (a ! i)),
                       js_add ar normB (js_mul ar (b ! i) (b ! i))))
               (Fin 0, Fin 0, Fin 0) [0..<length a] of
          (dotProduct, normA, normB) \<Rightarrow>
            js_div ar dotProduct (js_mul ar (Math_sqrt ar normA) (Math_sqrt ar normB)))"

text \<open>The body of the loop over the concepts; \<open>bestMatch\<close> is \<open>None\<close> for \<open>null\<close>.\<close>

definition matchStep ::
  "arith \<Rightarrow> vec \<Rightarrow> number \<Rightarrow> (string \<times> number) option \<Rightarrow> ConceptInput \<Rightarrow> (string \<times> number) option" where
  "matchStep ar centroid threshold bestMatch concept =
     (let similarity = cosineSimilarity ar centroid (co_embedding concept)
      in if js_ge similarity threshold then
           (case bestMatch of
              None \<Rightarrow> Some (co_id concept, similarity)
            | Some (bid, bsim) \<Rightarrow>
                if js_gt similarity bsim then Some (co_id concept, similarity) else bestMatch)
         else bestMatch)"

text \<open>\<open>cluster.summary.split(/[.!?]/)[0].slice(0, 50)\<close>: the text before the first of
  the three separators, cut to 50 characters. A string is a list of characters, one per
  code unit.\<close>

definition suggestLabel :: "string \<Rightarrow> string" where
  "suggestLabel str = take 50 (takeWhile (\<lambda>c. c \<notin> set ''.!?'') str)"

definition mapCluster ::
  "arith \<Rightarrow> ClusterInput \<Rightarrow> ConceptInput list \<Rightarrow> number \<Rightarrow> ClusterConceptMapperError + MapResult" where
  "mapCluster ar cluster_in concepts threshold =
     (case foldl (matchStep ar (ci_centroid cluster_in) threshold) None concepts of
        Some (bid, bsim) \<Rightarrow>
          Inr \<lparr>mr_clusterId = ci_id cluster_in, matched = True, conceptId = Some bid,
               confidence = Some bsim, suggestedLabel = None\<rparr>
      | None \<Rightarrow>
          Inr \<lparr>mr_clusterId = ci_id cluster_in, matched = False, conceptId = None,
               confidence = None, suggestedLabel = Some (suggestLabel (summary cluster_in))\<rparr>)"

section \<open>Reference notions used in the statements\<close>

text \<open>The message of the error that the precondition check of \<open>kMeans\<close> and
  \<open>miniBatchKMeans\<close> reports for \<open>n\<close> points and a requested \<open>k\<close>.\<close>

definition invalidInputMessage :: "nat \<Rightarrow> int \<Rightarrow> string" where
  "invalidInputMessage n k =
     (if n = 0 then ''Error: Cannot cluster empty vector array''
      else if k \<le> 0 then ''Error: k must be positive''
      else ''Error: k cannot exceed number of vectors'')"

text \<open>A random stream is fair for \<open>n\<close> points when every index keeps being drawn:
  after every position each index below \<open>n\<close> occurs again. Under this condition the
  rejection sampling of \<open>miniBatchKMeans\<close> ends.\<close>

definition fairDraws :: "(nat \<Rightarrow> real) \<Rightarrow> nat \<Rightarrow> bool" where
  "fairDraws rnd n = (\<forall>s. \<forall>i<n. \<exists>t\<ge>s. randomIndex rnd t n = i)"

text \<open>A stream that alternates between the draws \<open>0\<close> and \<open>1/2\<close>; it is fair for two
  points.\<close>

definition alternating :: "nat \<Rightarrow> real" where
  "alternating t = real (t mod 2) / 2"

text \<open>
  Properties of the rounding that the bounds on probabilities rest on; round-to-nearest
  on doubles has them, and so does \<open>ideal\<close>. Rounding is monotone and never gives
  \<open>NaN\<close>; \<open>0\<close> and \<open>1\<close> are doubles; a rounded value is a double, which rounding
  leaves as it is; \<open>Math.exp\<close> of a non-positive number is a double in \<open>[0, 1]\<close>, and
  \<open>Math.exp(0)\<close> is \<open>1\<close>.
\<close>

definition soundRounding :: "arith \<Rightarrow> bool" where
  "soundRounding ar =
     ((\<forall>a b. a \<le> b \<longrightarrow> js_le (fl ar a) (fl ar b)) \<and>
      fl ar 0 = Fin 0 \<and> fl ar 1 = Fin 1 \<and>
      (\<forall>a e. fl ar a = Fin e \<longrightarrow> fl ar e = Fin e) \<and>
      (\<forall>a\<le>0. \<exists>e. fl_exp ar a = Fin e \<and> 0 \<le> e \<and> e \<le> 1 \<and> fl ar e = Fin e) \<and>
      fl_exp ar 0 = Fin 1)"

text \<open>
  The cosine similarity of two vectors of one length, \<open>a\<cdot>b / (\<bar>a\<bar> \<bar>b\<bar>)\<close>, each sum
  accumulated from \<open>0\<close> in index order; the similarity of a concept to a centroid, which
  is \<open>0\<close> when the two lengths differ; and the position \<open>i\<close> of the winner of the scan:
  it reaches the threshold, no concept that reaches the threshold is more similar, and
  every earlier one that reaches it is strictly less similar.
\<close>

definition dotProduct :: "arith \<Rightarrow> vec \<Rightarrow> vec \<Rightarrow> number" where
  "dotProduct ar a b = foldl (js_add ar) (Fin 0) (map (\<lambda>(x, y). js_mul ar x y) (zip a b))"

definition cosine :: "arith \<Rightarrow> vec \<Rightarrow> vec \<Rightarrow> number" where
  "cosine ar a b =
     js_div ar (dotProduct ar a b)
       (js_mul ar (Math_sqrt ar (dotProduct ar a a)) (Math_sqrt ar (dotProduct ar b b)))"

definition sim_of :: "arith \<Rightarrow> vec \<Rightarrow> ConceptInput \<Rightarrow> number" where
  "sim_of ar centroid c =
     (if length centroid = length (co_embedding c) then cosine ar centroid (co_embedding c)
      else Fin 0)"

definition bestAt :: "arith \<Rightarrow> vec \<Rightarrow> number \<Rightarrow> ConceptInput list \<Rightarrow> nat \<Rightarrow> bool" where
  "bestAt ar centroid threshold concepts i =
     (i < length concepts \<and> js_ge (sim_of ar centroid (concepts ! i)) threshold \<and>
      (\<forall>j<length concepts. js_ge (sim_of ar centroid (concepts ! j)) threshold \<longrightarrow>
          js_le (sim_of ar centroid (concepts ! j)) (sim_of ar centroid (concepts ! i))) \<and>
      (\<forall>j<i. js_ge (sim_of ar centroid (concepts ! j)) threshold \<longrightarrow>
          js_lt (sim_of ar centroid (concepts ! j)) (sim_of ar centroid (concepts ! i))))"

text \<open>Finite numbers and their values; vectors without special values; point sets whose
  vectors are finite and share the dimension \<open>d\<close>.\<close>

fun isFin :: "number \<Rightarrow> bool" where
  "isFin (Fin _) = True"
| "isFin _ = False"

fun the_fin :: "number \<Rightarrow> real" where
  "the_fin (Fin r) = r"
| "the_fin _ = 0"

definition finiteVec :: "vec \<Rightarrow> bool" where
  "finiteVec v = list_all isFin v"

definition wellFormed :: "vec list \<Rightarrow> nat \<Rightarrow> bool" where
  "wellFormed vs d = list_all (\<lambda>v. length v = d \<and> finiteVec v) vs"

text \<open>
  The quantities of the BIC score. \<open>rssOf\<close> is the residual sum of squares of a
  clustering, the squared distances of the points to their assigned centroids added up
  from \<open>0\<close> in input order; \<open>paramCount\<close> is \<open>p = k\<cdot>d + (k - 1)\<close>; \<open>bicScore\<close> is
  \<open>n\<cdot>ln((rss + \<epsilon>)/n) + p\<cdot>ln(n)\<close> with the guard \<open>\<epsilon> = 1e-10\<close> added to the residual sum
  before the division by \<open>n\<close>, every operation being the one of the arithmetic.
\<close>

definition rssOf :: "arith \<Rightarrow> vec list \<Rightarrow> vec list \<Rightarrow> nat list \<Rightarrow> number" where
  "rssOf ar vectors centroids assignments =
     foldl (js_add ar) (Fin 0)
       (map (\<lambda>(v, a). js_sq ar (euclideanDistance ar v (centroids ! a)))
          (zip vectors assignments))"

definition paramCount :: "nat \<Rightarrow> nat \<Rightarrow> real" where
  "paramCount k d = real k * real d + (real k - 1)"

definition bicScore :: "arith \<Rightarrow> nat \<Rightarrow> number \<Rightarrow> real \<Rightarrow> number" where
  "bicScore ar n rss p =
     js_add ar
       (js_mul ar (Fin (real n))
          (Math_log ar (js_div ar (js_add ar rss (fl ar (1 / 10 ^ 10))) (Fin (real n)))))
       (js_mul ar (Fin p) (Math_log ar (Fin (real n))))"

text \<open>
  The same quantities on reals, for finite vectors: the squared Euclidean distance, the
  residual sum of squares, the score with the guard \<open>eps\<close> added to the residual sum
  before the division by \<open>n\<close>, and the score with the guard added after it.
\<close>

definition sqDist :: "vec \<Rightarrow> vec \<Rightarrow> real" where
  "sqDist a b = (\<Sum>i<length a. (the_fin (a ! i) - the_fin (b ! i))\<^sup>2)"

definition RSS :: "vec list \<Rightarrow> vec list \<Rightarrow> nat list \<Rightarrow> real" where
  "RSS vectors centroids assignments =
     (\<Sum>i<length vectors. sqDist (vectors ! i) (centroids ! (assignments ! i)))"

definition bicGuardInside :: "real \<Rightarrow> real \<Rightarrow> real \<Rightarrow> real \<Rightarrow> real" where
  "bicGuardInside eps n rss p = n * ln ((rss + eps) / n) + p * ln n"

definition bicGuardOutside :: "real \<Rightarrow> real \<Rightarrow> real \<Rightarrow> real \<Rightarrow> real" where
  "bicGuardOutside eps n rss p = n * ln (rss / n + eps) + p * ln n"

text \<open>The largest candidate \<open>k\<close> of the selection, \<open>min(maxClusters, n)\<close> with the default
  \<open>maxClusters = 10\<close>.\<close>

definition candidateMax :: "SoftClusterOptions \<Rightarrow> nat \<Rightarrow> int" where
  "candidateMax options n =
     min (case so_maxClusters options of None \<Rightarrow> 10 | Some m \<Rightarrow> m) (int n)"

text \<open>
  The scores of a list of candidates: each candidate \<open>k\<close> in turn is clustered by
  \<open>kMeans\<close>, starting at the random counter the previous candidate left, and the
  clustering is scored by \<open>calculateBIC\<close>; a candidate whose run throws has no score.
  The result is the list of scores and the random counter after the last run.
\<close>

fun candidateScores ::
  "arith \<Rightarrow> (nat \<Rightarrow> real) \<Rightarrow> vec list \<Rightarrow> int \<Rightarrow> int list \<Rightarrow> nat
     \<Rightarrow> (int \<times> number) list \<times> nat" where
  "candidateScores ar rnd vectors mi [] s = ([], s)"
| "candidateScores ar rnd vectors mi (k # ks) s =
     (case kMeans ar rnd vectors k mi s of
        Inl e \<Rightarrow> candidateScores ar rnd vectors mi ks s
      | Inr ((centroids, assignments), s') \<Rightarrow>
          (case calculateBIC ar vectors centroids assignments of
             Inl e \<Rightarrow> candidateScores ar rnd vectors mi ks s'
           | Inr bic \<Rightarrow>
               (case candidateScores ar rnd vectors mi ks s' of
                  (rest, s'') \<Rightarrow> ((k, bic) # rest, s''))))"

text \<open>
  \<open>bestK\<close> has the lowest score of a score list: its score is \<open>\<le>\<close> every score of the
  list and strictly below the score of every smaller \<open>k\<close>.
\<close>

definition lowestBIC :: "(int \<times> number) list \<Rightarrow> int \<Rightarrow> bool" where
  "lowestBIC scores bestK =
     list_ex (\<lambda>(k, b). k = bestK \<and>
                list_all (\<lambda>(k', b'). js_le b b' \<and> (k' < bestK \<longrightarrow> js_lt b b')) scores)
       scores"

text \<open>
  What the selection guarantees whatever the scores are. When some score is below
  \<open>Infinity\<close>, the score of \<open>bestK\<close> is below \<open>Infinity\<close>, no score is strictly below
  it, and no smaller \<open>k\<close> has a score \<open>\<le>\<close> it. When no score is below \<open>Infinity\<close>
  (each is \<open>Infinity\<close> or \<open>NaN\<close>), \<open>bestK\<close> is \<open>1\<close>.
\<close>

definition selectedBy :: "(int \<times> number) list \<Rightarrow> int \<Rightarrow> bool" where
  "selectedBy scores bestK =
     (if list_ex (\<lambda>(k, b). js_lt b PInf) scores
      then list_ex (\<lambda>(k, b). k = bestK \<and> js_lt b PInf \<and>
                      list_all (\<lambda>(k', b'). \<not> js_lt b' b \<and> (k' < bestK \<longrightarrow> \<not> js_le b' b))
                        scores)
             scores
      else bestK = 1)"

text \<open>
  The temperature-scaled softmax over negated distances, in the numerically stable form:
  the score of a distance \<open>d\<close> is \<open>-d / t\<close>, its weight is the exponential of the score
  minus the greatest score, and its probability is the weight divided by the sum of the
  weights. \<open>memberProbability\<close> is the probability of cluster \<open>j\<close> for the point \<open>v\<close> at
  the temperature \<open>0.5\<close> that \<open>clusterSoft\<close> uses; \<open>cutoff\<close> is \<open>minProbability\<close> with
  its default \<open>0.01\<close>.
\<close>

definition softmaxOf :: "arith \<Rightarrow> number list \<Rightarrow> number \<Rightarrow> number list" where
  "softmaxOf ar ds t =
     (let score = (\<lambda>d. js_div ar (js_neg d) t);
          top = Math_max (map score ds);
          weight = (\<lambda>d. Math_exp ar (js_sub ar (score d) top));
          sumW = foldl (js_add ar) (Fin 0) (map weight ds)
      in map (\<lambda>d. js_div ar (weight d) sumW) ds)"

definition memberProbability :: "arith \<Rightarrow> vec list \<Rightarrow> vec \<Rightarrow> nat \<Rightarrow> number" where
  "memberProbability ar centroids v j =
     js_nth (softmaxOf ar (map (\<lambda>c. euclideanDistance ar v c) centroids) (Fin (1 / 2))) j"

definition cutoff :: "arith \<Rightarrow> SoftClusterOptions \<Rightarrow> number" where
  "cutoff ar options =
     (case so_minProbability options of None \<Rightarrow> fl ar (1 / 100) | Some p \<Rightarrow> p)"

section \<open>The arithmetic\<close>

lemma rounded_simps [simp]:
  "rounded ar (Fin c) = fl ar c" "rounded ar PInf = PInf" "rounded ar NInf = NInf"
  "rounded ar NaN = NaN"
  by (simp_all add: rounded_def)

lemma ideal_fields [simp]:
  "fl ideal = Fin" "fl_log ideal = (\<lambda>a. Fin (ln a))"
  "fl_exp ideal = (\<lambda>a. if a < - (1075 * ln 2) then Fin 0 else Fin (exp a))"
  by (simp_all add: ideal_def)

lemma rounded_ideal [simp]: "rounded ideal x = x"
  by (cases x) simp_all

lemma ideal_ops:
  "js_add ideal a b = ex_add a b" "js_sub ideal a b = ex_add a (js_neg b)"
  "js_mul ideal a b = ex_mul a b" "js_div ideal a b = ex_div a b"
  "js_sq ideal a = ex_mul a a" "Math_sqrt ideal a = ex_sqrt a"
  by (simp_all add: js_add_def js_sub_def js_mul_def js_div_def js_sq_def Math_sqrt_def)

lemma ex_NaN [simp]:
  "ex_add a NaN = NaN" "ex_mul a NaN = NaN" "ex_div a NaN = NaN"
  by (cases a; simp)+

lemma js_NaN [simp]:
  "js_add ar NaN b = NaN" "js_add ar a NaN = NaN" "js_sub ar NaN b = NaN" "js_sub ar a NaN = NaN"
  "js_mul ar NaN b = NaN" "js_mul ar a NaN = NaN" "js_div ar NaN b = NaN" "js_div ar a NaN = NaN"
  "js_sq ar NaN = NaN" "Math_sqrt ar NaN = NaN"
  by (simp_all add: js_add_def js_sub_def js_mul_def js_div_def js_sq_def Math_sqrt_def)

section \<open>Comparisons of numbers\<close>

lemma js_ge_not_NaN: "js_ge a b \<Longrightarrow> a \<noteq> NaN \<and> b \<noteq> NaN"
  by (cases a; cases b) (auto simp: js_ge_def)

lemma js_le_lt_trans: "js_le a b \<Longrightarrow> js_lt b c \<Longrightarrow> js_lt a c"
  by (cases a; cases b; cases c) auto

lemma js_lt_imp_le: "js_lt a b \<Longrightarrow> js_le a b"
  by (cases a; cases b) auto

lemma js_not_lt_imp_le: "a \<noteq> NaN \<Longrightarrow> b \<noteq> NaN \<Longrightarrow> \<not> js_lt a b \<Longrightarrow> js_le b a"
  by (cases a; cases b) auto

lemma js_le_refl: "a \<noteq> NaN \<Longrightarrow> js_le a a"
  by (cases a) auto

lemma js_lt_le_trans: "js_lt a b \<Longrightarrow> js_le b c \<Longrightarrow> js_lt a c"
  by (cases a; cases b; cases c) auto


lemma js_lt_irrefl: "\<not> js_lt a a"
  by (cases a) auto

lemma js_le_trans: "js_le a b \<Longrightarrow> js_le b c \<Longrightarrow> js_le a c"
  by (cases a; cases b; cases c) auto


section \<open>Shape of the hard clustering result\<close>

lemma randomIndex_lt: "0 < n \<Longrightarrow> randomIndex rnd s n < n"
proof -
  assume n: "0 < n"
  have f: "0 \<le> frac (rnd s)" "frac (rnd s) < 1" by (simp_all add: frac_lt_1)
  have "frac (rnd s) * real n < 1 * real n"
    using f n by (intro mult_strict_right_mono) simp_all
  then have "\<lfloor>frac (rnd s) * real n\<rfloor> < int n" by (simp add: floor_less_iff)
  moreover have "0 \<le> \<lfloor>frac (rnd s) * real n\<rfloor>" using f by simp
  ultimately show ?thesis by (simp add: randomIndex_def Math_random_def nat_less_iff)
qed

lemma length_seedLoop:
  "length (fst (seedLoop ar rnd vectors m (centroids, s))) = length centroids + m"
  by (induction m arbitrary: centroids s) (auto simp: Let_def split: option.splits)

lemma length_kMeansPlusPlusInit:
  "0 < k \<Longrightarrow> length (fst (kMeansPlusPlusInit ar rnd vectors k s)) = nat k"
  by (simp add: kMeansPlusPlusInit_def length_seedLoop Let_def)

lemma length_updateCentroids:
  "length (updateCentroids ar vectors k assignments centroids) = length centroids"
proof -
  have "length (foldl (\<lambda>cs i. let cv = clusterVectors vectors assignments i
                   in if 0 < length cv then cs[i := meanVector ar cv] else cs) cs0 xs) = length cs0" for xs cs0
    by (induction xs arbitrary: cs0) (auto simp: Let_def)
  then show ?thesis by (simp add: updateCentroids_def)
qed

lemma nearest_fold_lt:
  "snd st < k \<Longrightarrow> \<forall>i\<in>set xs. i < k \<Longrightarrow> snd (foldl (nearestStep ar v centroids) st xs) < k"
  by (induction xs arbitrary: st) (auto simp: nearestStep_def Let_def)

lemma nearest_lt: "0 < k \<Longrightarrow> nearest ar v centroids k < k"
  by (simp add: nearest_def nearest_fold_lt)

lemma kMeansLoop_shape:
  "length assignments = length vectors \<Longrightarrow> \<forall>a\<in>set assignments. a < k \<Longrightarrow> 0 < k \<Longrightarrow>
   kMeansLoop ar m vectors k centroids assignments = (cs, as) \<Longrightarrow>
   length cs = length centroids \<and> length as = length vectors \<and> (\<forall>a\<in>set as. a < k)"
proof (induction m arbitrary: centroids assignments)
  case 0
  then show ?case by simp
next
  case (Suc m)
  show ?case
  proof (cases "arraysEqual assignments (map (\<lambda>v. nearest ar v centroids k) vectors)")
    case True
    with Suc.prems show ?thesis by (simp add: Let_def)
  next
    case False
    with Suc.prems(4) have
      "kMeansLoop ar m vectors k (updateCentroids ar vectors k (map (\<lambda>v. nearest ar v centroids k) vectors) centroids)
         (map (\<lambda>v. nearest ar v centroids k) vectors) = (cs, as)"
      by (simp add: Let_def)
    from Suc.IH[OF _ _ Suc.prems(3) this] Suc.prems(3)
    show ?thesis by (simp add: nearest_lt length_updateCentroids)
  qed
qed


lemma kMeans_shape:
  assumes "vectors \<noteq> []" "0 < k" "k \<le> int (length vectors)"
  shows "\<exists>cs as s'. kMeans ar rnd vectors k maxIterations s = Inr ((cs, as), s') \<and>
           length cs = nat k \<and> length as = length vectors \<and> (\<forall>a\<in>set as. a < nat k)"
proof -
  obtain c0 s' where init: "kMeansPlusPlusInit ar rnd vectors k s = (c0, s')"
    by (cases "kMeansPlusPlusInit ar rnd vectors k s")
  have len0: "length c0 = nat k"
    using length_kMeansPlusPlusInit[OF assms(2), of ar rnd vectors s] init by simp
  obtain cs as where loop:
    "kMeansLoop ar (nat maxIterations) vectors (nat k) c0 (replicate (length vectors) 0) = (cs, as)"
    by (cases "kMeansLoop ar (nat maxIterations) vectors (nat k) c0 (replicate (length vectors) 0)")
  have "length cs = length c0 \<and> length as = length vectors \<and> (\<forall>a\<in>set as. a < nat k)"
    using assms(2) by (intro kMeansLoop_shape[OF _ _ _ loop]) auto
  moreover have "kMeans ar rnd vectors k maxIterations s = Inr ((cs, as), s')"
    using assms init loop by (simp add: kMeans_def)
  ultimately show ?thesis using len0 by simp
qed

lemma buildResult_clusters:
  "map cl_id (res_clusters (buildResult ar embeddings centroids assignments)) = [0..<length centroids]"
  by (simp add: buildResult_def Let_def enumerate_eq_zip comp_def case_prod_beta map_fst_zip_take)

lemma buildResult_centroids:
  "map cl_centroid (res_clusters (buildResult ar embeddings centroids assignments)) = centroids"
  by (simp add: buildResult_def Let_def enumerate_eq_zip comp_def case_prod_beta)

lemma length_buildResult_assignments:
  "length (res_assignments (buildResult ar embeddings centroids assignments)) = length embeddings"
  by (simp add: buildResult_def Let_def)

lemma length_buildResult_clusters:
  "length (res_clusters (buildResult ar embeddings centroids assignments)) = length centroids"
  by (simp add: buildResult_def Let_def)

lemma nth_buildResult_assignments:
  "idx < length embeddings \<Longrightarrow>
   res_assignments (buildResult ar embeddings centroids assignments) ! idx =
     \<lparr>ca_id = emb_id (embeddings ! idx), ca_clusterId = assignments ! idx,
      ca_distance = euclideanDistance ar (vector (embeddings ! idx)) (centroids ! (assignments ! idx))\<rparr>"
  by (simp add: buildResult_def Let_def nth_enumerate_eq)

lemma buildResult_ids:
  "map ca_id (res_assignments (buildResult ar embeddings centroids assignments)) = map emb_id embeddings"
  by (simp add: list_eq_iff_nth_eq length_buildResult_assignments nth_buildResult_assignments)

lemma buildResult_clusterIds:
  "length assignments = length embeddings \<Longrightarrow>
   map ca_clusterId (res_assignments (buildResult ar embeddings centroids assignments)) = assignments"
  by (simp add: list_eq_iff_nth_eq length_buildResult_assignments nth_buildResult_assignments)

lemma buildResult_sizes:
  assumes "length assignments = length embeddings"
  shows "\<forall>c\<in>set (res_clusters (buildResult ar embeddings centroids assignments)).
           cl_size c = length (filter (\<lambda>a. ca_clusterId a = cl_id c)
                          (res_assignments (buildResult ar embeddings centroids assignments)))"
proof -
  have "length (filter (\<lambda>a. ca_clusterId a = i) (res_assignments (buildResult ar embeddings centroids assignments)))
        = length (filter (\<lambda>a. a = i) (map ca_clusterId (res_assignments (buildResult ar embeddings centroids assignments))))" for i
    by (simp add: filter_map comp_def)
  then have *: "length (filter (\<lambda>a. ca_clusterId a = i) (res_assignments (buildResult ar embeddings centroids assignments)))
        = length (filter (\<lambda>a. a = i) assignments)" for i
    by (simp add: buildResult_clusterIds[OF assms])
  show ?thesis
    unfolding *
    by (auto simp: buildResult_def Let_def)
qed

text \<open>
  C1. For every non-empty list of points and every \<open>k\<close> with \<open>0 < k \<le> points.length\<close>,
  \<open>cluster\<close> succeeds, whatever the random draws and \<open>maxIterations\<close>; it returns
  exactly \<open>k\<close> clusters with ids \<open>0 .. k-1\<close> (a cluster without members stays in the
  list, its size being the number of assignments that carry its id) and exactly one
  assignment per point, in input order, each with a cluster id below \<open>k\<close>.
\<close>

theorem cluster_shape:
  assumes "embeddings \<noteq> []" "0 < opt_k options" "opt_k options \<le> int (length embeddings)"
  shows "\<exists>res s'. cluster ar rnd embeddings options s = Inr (res, s') \<and>
           length (res_clusters res) = nat (opt_k options) \<and>
           map cl_id (res_clusters res) = [0..<nat (opt_k options)] \<and>
           (\<forall>c\<in>set (res_clusters res).
              cl_size c = length (filter (\<lambda>a. ca_clusterId a = cl_id c) (res_assignments res))) \<and>
           length (res_assignments res) = length embeddings \<and>
           map ca_id (res_assignments res) = map emb_id embeddings \<and>
           (\<forall>a\<in>set (res_assignments res). ca_clusterId a < nat (opt_k options))"
proof -
  let ?mi = "case opt_maxIterations options of None \<Rightarrow> 100 | Some m \<Rightarrow> m"
  from assms obtain cs as s' where
    km: "kMeans ar rnd (map vector embeddings) (opt_k options) ?mi s = Inr ((cs, as), s')"
    and cs: "length cs = nat (opt_k options)"
    and as: "length as = length embeddings" "\<forall>a\<in>set as. a < nat (opt_k options)"
    using kMeans_shape[of "map vector embeddings" "opt_k options" ar rnd ?mi s] by auto
  have res: "cluster ar rnd embeddings options s = Inr (buildResult ar embeddings cs as, s')"
    using km by (simp add: cluster_def Let_def)
  have ids: "map ca_clusterId (res_assignments (buildResult ar embeddings cs as)) = as"
    using as(1) by (rule buildResult_clusterIds)
  have rng: "\<forall>a\<in>set (res_assignments (buildResult ar embeddings cs as)). ca_clusterId a < nat (opt_k options)"
  proof
    fix a assume "a \<in> set (res_assignments (buildResult ar embeddings cs as))"
    then have "ca_clusterId a \<in> set (map ca_clusterId (res_assignments (buildResult ar embeddings cs as)))"
      by simp
    then show "ca_clusterId a < nat (opt_k options)" using as(2) unfolding ids by simp
  qed
  show ?thesis
    using res cs as(1) rng buildResult_sizes[OF as(1), of ar cs]
    by (simp add: length_buildResult_clusters length_buildResult_assignments
        buildResult_clusters buildResult_ids)
qed

theorem cluster_shape_witness:
  "\<exists>res s'. cluster ideal (\<lambda>_. 0)
       [\<lparr>emb_id = ''1'', vector = [Fin 1, Fin 0]\<rparr>, \<lparr>emb_id = ''2'', vector = [Fin 2, Fin 0]\<rparr>]
       \<lparr>opt_k = 2, opt_maxIterations = None\<rparr> 0 = Inr (res, s') \<and>
     length (res_clusters res) = 2 \<and> length (res_assignments res) = 2 \<and>
     map ca_id (res_assignments res) = [''1'', ''2'']"
  using cluster_shape[of "[\<lparr>emb_id = ''1'', vector = [Fin 1, Fin 0]\<rparr>, \<lparr>emb_id = ''2'', vector = [Fin 2, Fin 0]\<rparr>]"
      "\<lparr>opt_k = 2, opt_maxIterations = None\<rparr>" ideal "\<lambda>_. 0" 0]
  by auto

section \<open>Rejected inputs\<close>

text \<open>
  C8. \<open>cluster\<close> and \<open>clusterMiniBatch\<close> fail with a \<open>ClusteringError\<close> whenever the
  point list is empty, \<open>k \<le> 0\<close> or \<open>k\<close> exceeds the number of points. The error is
  the one of the precondition check: it does not depend on the random stream, on
  \<open>maxIterations\<close> or on \<open>batchSize\<close>, so no seeding draw and no iteration precedes it.
\<close>

theorem invalid_input_rejected:
  assumes "embeddings = [] \<or> k \<le> 0 \<or> k > int (length embeddings)"
  shows "cluster ar rnd embeddings \<lparr>opt_k = k, opt_maxIterations = mi\<rparr> s =
           Inl (ClusteringError (invalidInputMessage (length embeddings) k)) \<and>
         clusterMiniBatch ar rnd embeddings \<lparr>mb_k = k, mb_batchSize = bs, mb_maxIterations = mi'\<rparr> s =
           Some (Inl (ClusteringError (invalidInputMessage (length embeddings) k)))"
  using assms
  by (auto simp: cluster_def clusterMiniBatch_def kMeans_def miniBatchKMeans_def
      invalidInputMessage_def Let_def)

theorem invalid_input_rejected_witness:
  "cluster ideal (\<lambda>_. 0) [\<lparr>emb_id = ''1'', vector = [Fin 1, Fin 0]\<rparr>]
       \<lparr>opt_k = 5, opt_maxIterations = None\<rparr> 0 =
     Inl (ClusteringError ''Error: k cannot exceed number of vectors'') \<and>
   clusterMiniBatch ideal (\<lambda>_. 0) [\<lparr>emb_id = ''1'', vector = [Fin 1, Fin 0]\<rparr>]
       \<lparr>mb_k = 5, mb_batchSize = None, mb_maxIterations = None\<rparr> 0 =
     Some (Inl (ClusteringError ''Error: k cannot exceed number of vectors''))"
  using invalid_input_rejected[of "[\<lparr>emb_id = ''1'', vector = [Fin 1, Fin 0]\<rparr>]" 5
      ideal "\<lambda>_. 0" None 0 None None]
  by (simp add: invalidInputMessage_def)

section \<open>The first iteration of k-means\<close>

lemma arraysEqual_iff: "arraysEqual a b \<longleftrightarrow> a = b"
proof -
  have "list_all (\<lambda>(i, v). v = b ! i) (enumerate 0 a) \<longleftrightarrow> (\<forall>i<length a. a ! i = b ! i)"
    by (auto simp: list_all_length nth_enumerate_eq)
  then show ?thesis by (auto simp: arraysEqual_def list_eq_iff_nth_eq)
qed

lemma kMeansLoop_single:
  "kMeansLoop ar m vectors (Suc 0) cs (replicate (length vectors) 0) = (cs, replicate (length vectors) 0)"
proof (cases m)
  case 0
  then show ?thesis by simp
next
  case (Suc m')
  have "map (\<lambda>v. nearest ar v cs (Suc 0)) vectors = replicate (length vectors) 0"
    using nearest_lt[of "Suc 0" ar _ cs] by (simp add: map_replicate_const[symmetric] del: map_replicate_const)
  then show ?thesis by (simp add: Suc arraysEqual_iff)
qed

lemma kMeans_single_cluster:
  assumes "vectors \<noteq> []"
  shows "kMeans ar rnd vectors 1 maxIterations s =
           Inr (([vectors ! randomIndex rnd s (length vectors)], replicate (length vectors) 0), Suc s)"
  using assms by (simp add: kMeans_def kMeansPlusPlusInit_def kMeansLoop_single Suc_le_eq)

lemma meanVector_example: "meanVector ideal [[Fin 0], [Fin 2]] = [Fin 1]"
  by (simp add: meanVector_def js_nth_def ideal_ops)

lemma randomIndex_zero: "randomIndex (\<lambda>_. 0) s n = 0"
  by (simp add: randomIndex_def Math_random_def)

text \<open>
  C2. The convergence test of the first iteration compares the new assignments with the
  zero-filled array \<open>assignments\<close> starts as, not with the assignments of an earlier
  iteration. With \<open>k = 1\<close> every point is assigned cluster \<open>0\<close>, the test succeeds at
  once and the loop is left before any centroid is recomputed: for every random stream
  and every \<open>maxIterations\<close>, \<open>cluster\<close> reports as the centroid of its single cluster
  the seed point drawn by the initialisation, not the mean of the members.
\<close>

theorem cluster_single_keeps_seed:
  assumes "embeddings \<noteq> []"
  shows "\<exists>res. cluster ar rnd embeddings \<lparr>opt_k = 1, opt_maxIterations = mi\<rparr> s = Inr (res, Suc s) \<and>
           map cl_centroid (res_clusters res) =
             [vector (embeddings ! randomIndex rnd s (length embeddings))] \<and>
           map ca_clusterId (res_assignments res) = replicate (length embeddings) 0"
proof -
  let ?i = "randomIndex rnd s (length embeddings)"
  let ?mi = "case mi of None \<Rightarrow> 100 | Some m \<Rightarrow> m"
  have "?i < length embeddings" using assms by (intro randomIndex_lt) simp
  then have c: "map vector embeddings ! ?i = vector (embeddings ! ?i)" by simp
  have km: "kMeans ar rnd (map vector embeddings) 1 ?mi s =
      Inr (([vector (embeddings ! ?i)], replicate (length embeddings) 0), Suc s)"
    using kMeans_single_cluster[of "map vector embeddings" ar rnd ?mi s] assms c by simp
  have "cluster ar rnd embeddings \<lparr>opt_k = 1, opt_maxIterations = mi\<rparr> s =
      Inr (buildResult ar embeddings [vector (embeddings ! ?i)] (replicate (length embeddings) 0), Suc s)"
    by (simp add: cluster_def km)
  then show ?thesis
    by (simp add: buildResult_centroids buildResult_clusterIds)
qed

theorem cluster_single_keeps_seed_witness:
  "\<exists>res. cluster ideal (\<lambda>_. 0) [\<lparr>emb_id = ''1'', vector = [Fin 0]\<rparr>, \<lparr>emb_id = ''2'', vector = [Fin 2]\<rparr>]
       \<lparr>opt_k = 1, opt_maxIterations = None\<rparr> 0 = Inr (res, Suc 0) \<and>
     map cl_centroid (res_clusters res) = [[Fin 0]] \<and>
     map ca_clusterId (res_assignments res) = [0, 0] \<and>
     meanVector ideal [[Fin 0], [Fin 2]] = [Fin 1]"
  using cluster_single_keeps_seed[of
      "[\<lparr>emb_id = ''1'', vector = [Fin 0]\<rparr>, \<lparr>emb_id = ''2'', vector = [Fin 2]\<rparr>]" ideal "\<lambda>_. 0" None 0]
  by (simp add: randomIndex_zero meanVector_example numeral_2_eq_2)


section \<open>The body of a k-means iteration\<close>




lemma kMeansLoop_iteration:
  "kMeansLoop ar (Suc m) vectors k centroids assignments =
     (if map (\<lambda>v. nearest ar v centroids k) vectors = assignments then (centroids, assignments)
      else kMeansLoop ar m vectors k
             (updateCentroids ar vectors k (map (\<lambda>v. nearest ar v centroids k) vectors) centroids)
             (map (\<lambda>v. nearest ar v centroids k) vectors))"
  by (auto simp: Let_def arraysEqual_iff)

lemma updateCentroids_nth:
  "i < length centroids \<Longrightarrow>
   updateCentroids ar vectors k assignments centroids ! i =
     (if i < k \<and> clusterVectors vectors assignments i \<noteq> []
      then meanVector ar (clusterVectors vectors assignments i) else centroids ! i)"
proof (induction k)
  case 0
  then show ?case by (simp add: updateCentroids_def)
next
  case (Suc k)
  have len: "length (updateCentroids ar vectors k assignments centroids) = length centroids"
    by (rule length_updateCentroids)
  have unf: "updateCentroids ar vectors (Suc k) assignments centroids =
      (let cs = updateCentroids ar vectors k assignments centroids;
           cv = clusterVectors vectors assignments k
       in if 0 < length cv then cs[k := meanVector ar cv] else cs)"
    by (simp add: updateCentroids_def Let_def)
  show ?case
    using Suc len by (auto simp: unf Let_def nth_list_update less_Suc_eq)
qed

lemma isFin_iff: "isFin x \<longleftrightarrow> x = Fin (the_fin x)"
  by (cases x) auto

lemma finiteVec_nth: "finiteVec v \<Longrightarrow> i < length v \<Longrightarrow> v ! i = Fin (the_fin (v ! i))"
  by (simp add: finiteVec_def list_all_length isFin_iff[symmetric])

lemma finiteVec_Cons: "finiteVec (x # xs) \<longleftrightarrow> isFin x \<and> finiteVec xs"
  by (simp add: finiteVec_def)

lemma wellFormed_nth:
  "wellFormed vs d \<Longrightarrow> i < length vs \<Longrightarrow> length (vs ! i) = d \<and> finiteVec (vs ! i)"
  by (simp add: wellFormed_def list_all_length)

lemma mean_fold:
  "wellFormed vs d \<Longrightarrow>
   foldl (\<lambda>mean v. map (\<lambda>i. js_add ideal (mean ! i) (js_nth v i)) [0..<d])
      (map (\<lambda>i. Fin (g i)) [0..<d]) vs
    = map (\<lambda>i. Fin (g i + sum_list (map (\<lambda>v. the_fin (v ! i)) vs))) [0..<d]"
proof (induction vs arbitrary: g)
  case Nil
  then show ?case by simp
next
  case (Cons v vs)
  then have v: "length v = d" "finiteVec v" and vs: "wellFormed vs d"
    by (simp_all add: wellFormed_def)
  have step: "map (\<lambda>i. js_add ideal (map (\<lambda>i. Fin (g i)) [0..<d] ! i) (js_nth v i)) [0..<d]
      = map (\<lambda>i. Fin (g i + the_fin (v ! i))) [0..<d]"
  proof (rule map_cong[OF refl])
    fix i assume "i \<in> set [0..<d]"
    then have i: "i < d" by simp
    then have "js_nth v i = Fin (the_fin (v ! i))"
      using v finiteVec_nth[of v i] by (simp add: js_nth_def)
    then show "js_add ideal (map (\<lambda>i. Fin (g i)) [0..<d] ! i) (js_nth v i) = Fin (g i + the_fin (v ! i))"
      using i by (simp add: ideal_ops)
  qed
  show ?case
    using Cons.IH[OF vs, of "\<lambda>i. g i + the_fin (v ! i)"]
    by (simp add: step add.assoc)
qed

lemma meanVector_value:
  assumes "vs \<noteq> []" "wellFormed vs d"
  shows "meanVector ideal vs =
           map (\<lambda>i. Fin (sum_list (map (\<lambda>v. the_fin (v ! i)) vs) / real (length vs))) [0..<d]"
proof -
  have d: "length (hd vs) = d" using assms by (cases vs) (simp_all add: wellFormed_def)
  have z: "replicate d (Fin 0) = map (\<lambda>i. Fin ((\<lambda>_. 0) i)) [0..<d]"
    by (simp add: map_replicate_const)
  have n0: "real (length vs) \<noteq> 0" using assms(1) by simp
  show ?thesis
    unfolding meanVector_def Let_def d z mean_fold[OF assms(2)]
    using assms(1) n0 by (simp add: comp_def ideal_ops)
qed

section \<open>Mini-batch k-means: the final pass\<close>

lemma sampleBatch_skip:
  "s \<le> t \<Longrightarrow> randomIndex rnd t n \<notin> set batch \<Longrightarrow> int (length batch) < b \<Longrightarrow>
   \<exists>t'\<ge>s. randomIndex rnd t' n \<notin> set batch \<and>
     sampleBatch rnd n b batch s = sampleBatch rnd n b (batch @ [randomIndex rnd t' n]) (Suc t')"
proof (induction "t - s" arbitrary: s)
  case 0
  then have "s = t" by simp
  with 0 show ?case
    by (intro exI[of _ t]) (simp add: sampleBatch.simps[of rnd n b batch t])
next
  case (Suc d)
  show ?case
  proof (cases "randomIndex rnd s n \<in> set batch")
    case False
    with Suc.prems show ?thesis
      by (intro exI[of _ s]) (simp add: sampleBatch.simps[of rnd n b batch s])
  next
    case True
    have "d = t - Suc s" "Suc s \<le> t" using Suc.hyps(2) by simp_all
    from Suc.hyps(1)[OF this Suc.prems(2,3)] obtain t' where
      t': "Suc s \<le> t'" "randomIndex rnd t' n \<notin> set batch"
      "sampleBatch rnd n b batch (Suc s) = sampleBatch rnd n b (batch @ [randomIndex rnd t' n]) (Suc t')"
      by blast
    have "sampleBatch rnd n b batch s = sampleBatch rnd n b batch (Suc s)"
      using True Suc.prems(3) by (simp add: sampleBatch.simps[of rnd n b batch s])
    with t' show ?thesis by (intro exI[of _ t']) simp
  qed
qed

lemma missing_index:
  assumes "distinct batch" "set batch \<subseteq> {..<n}" "length batch < n"
  shows "\<exists>i<n. i \<notin> set batch"
proof (rule ccontr)
  assume "\<not> ?thesis"
  then have "{..<n} \<subseteq> set batch" by auto
  then have "card {..<n} \<le> card (set batch)" by (intro card_mono) simp_all
  then show False using assms(1,3) by (simp add: distinct_card)
qed

lemma sampleBatch_returns:
  assumes fair: "fairDraws rnd n" and b: "b \<le> int n"
  shows "distinct batch \<Longrightarrow> set batch \<subseteq> {..<n} \<Longrightarrow>
         \<exists>r. sampleBatch rnd n b batch s = Some r"
proof (induction "nat b - length batch" arbitrary: batch s)
  case 0
  then have "\<not> int (length batch) < b" by simp
  then show ?case by (simp add: sampleBatch.simps[of rnd n b batch s])
next
  case (Suc d)
  then have lt: "int (length batch) < b" by simp
  with b have "length batch < n" by simp
  from missing_index[OF Suc.prems this] obtain i where i: "i < n" "i \<notin> set batch" by blast
  from fair i(1) obtain t where t: "s \<le> t" "randomIndex rnd t n = i"
    unfolding fairDraws_def by blast
  from sampleBatch_skip[OF t(1) _ lt, of rnd n] t(2) i(2) obtain t' where
    t': "randomIndex rnd t' n \<notin> set batch"
    "sampleBatch rnd n b batch s = sampleBatch rnd n b (batch @ [randomIndex rnd t' n]) (Suc t')"
    by auto
  have npos: "0 < n" using i(1) by simp
  have "randomIndex rnd t' n < n" using npos by (rule randomIndex_lt)
  then have "distinct (batch @ [randomIndex rnd t' n])" "set (batch @ [randomIndex rnd t' n]) \<subseteq> {..<n}"
    using Suc.prems t'(1) by auto
  moreover have "d = nat b - length (batch @ [randomIndex rnd t' n])" using Suc.hyps(2) by simp
  ultimately obtain r where "sampleBatch rnd n b (batch @ [randomIndex rnd t' n]) (Suc t') = Some r"
    using Suc.hyps(1) by blast
  with t'(2) show ?case by simp
qed

lemma miniBatchLoop_returns:
  assumes fair: "fairDraws rnd (length vectors)" and b: "b \<le> int (length vectors)"
  shows "\<exists>r. miniBatchLoop ar m rnd vectors k b iter st = Some r"
proof (induction m arbitrary: iter st)
  case 0
  show ?case by (rule exI[of _ st]) simp
next
  case (Suc m iter st)
  obtain centroids counts prev s where st: "st = (centroids, counts, prev, s)"
    using prod_cases4 by blast
  obtain batch s' where sb: "sampleBatch rnd (length vectors) b [] s = Some (batch, s')"
    using sampleBatch_returns[OF fair b, of "[]" s] by auto
  obtain c' n' where bu: "batchUpdate ar vectors k (centroids, counts) batch = (c', n')"
    by (cases "batchUpdate ar vectors k (centroids, counts) batch")
  show ?case
    using Suc.IH[of "Suc iter" "(c', n', c', s')"] Suc.IH[of "Suc iter" "(c', n', prev, s')"]
    by (simp add: st sb bu)
qed

lemma miniBatchKMeans_returns:
  assumes "fairDraws rnd (length vectors)"
  shows "miniBatchKMeans ar rnd vectors k batchSize maxIterations s \<noteq> None"
proof -
  obtain c0 s1 where init: "kMeansPlusPlusInit ar rnd vectors k s = (c0, s1)"
    by (cases "kMeansPlusPlusInit ar rnd vectors k s")
  have "min batchSize (int (length vectors)) \<le> int (length vectors)" by simp
  from miniBatchLoop_returns[OF assms this] obtain r where
    "miniBatchLoop ar (nat maxIterations) rnd vectors (nat k) (min batchSize (int (length vectors))) 0
       (c0, replicate (nat k) 0, c0, s1) = Some r"
    by blast
  then show ?thesis
    by (cases r) (simp add: miniBatchKMeans_def Let_def init)
qed

lemma length_updateOne: "length (fst (updateOne ar vectors st p)) = length (fst st)"
  by (simp add: updateOne_def Let_def)

lemma length_batchUpdate: "length (fst (batchUpdate ar vectors k st batch)) = length (fst st)"
proof -
  have "length (fst (foldl (updateOne ar vectors) st0 ps)) = length (fst st0)" for st0 ps
    by (induction ps arbitrary: st0) (simp_all add: length_updateOne)
  then show ?thesis by (simp add: batchUpdate_def Let_def)
qed

lemma length_miniBatchLoop:
  "miniBatchLoop ar m rnd vectors k b iter (centroids, counts, prev, s) = Some (cs, counts', prev', s') \<Longrightarrow>
   length cs = length centroids"
proof (induction m arbitrary: iter centroids counts prev s)
  case 0
  then show ?case by simp
next
  case (Suc m)
  from Suc.prems obtain batch s1 where
    sb: "sampleBatch rnd (length vectors) b [] s = Some (batch, s1)"
    by (auto split: option.splits)
  obtain c1 n1 where bu: "batchUpdate ar vectors k (centroids, counts) batch = (c1, n1)"
    by (cases "batchUpdate ar vectors k (centroids, counts) batch")
  have l1: "length c1 = length centroids"
    using length_batchUpdate[of ar vectors k "(centroids, counts)" batch] bu by simp
  from Suc.prems have
    "Some (cs, counts', prev', s') = Some (c1, n1, prev, s1) \<or>
     miniBatchLoop ar m rnd vectors k b (Suc iter) (c1, n1, c1, s1) = Some (cs, counts', prev', s') \<or>
     miniBatchLoop ar m rnd vectors k b (Suc iter) (c1, n1, prev, s1) = Some (cs, counts', prev', s')"
    by (auto simp: sb bu split: if_splits)
  then show ?case using Suc.IH l1 by auto
qed

lemma miniBatchKMeans_full_pass:
  assumes "miniBatchKMeans ar rnd vectors k batchSize maxIterations s = Some r"
    "vectors \<noteq> []" "0 < k" "k \<le> int (length vectors)"
  shows "\<exists>cs s'. r = Inr ((cs, map (\<lambda>v. nearest ar v cs (nat k)) vectors), s') \<and> length cs = nat k"
proof -
  obtain c0 s1 where init: "kMeansPlusPlusInit ar rnd vectors k s = (c0, s1)"
    by (cases "kMeansPlusPlusInit ar rnd vectors k s")
  have len0: "length c0 = nat k"
    using length_kMeansPlusPlusInit[OF assms(3), of ar rnd vectors s] init by simp
  from assms obtain cs counts' prev' s' where
    loop: "miniBatchLoop ar (nat maxIterations) rnd vectors (nat k)
             (min batchSize (int (length vectors))) 0 (c0, replicate (nat k) 0, c0, s1) =
           Some (cs, counts', prev', s')"
    and r: "r = Inr ((cs, map (\<lambda>v. nearest ar v cs (nat k)) vectors), s')"
    by (auto simp: miniBatchKMeans_def Let_def init split: option.splits)
  from length_miniBatchLoop[OF loop] len0 r show ?thesis by simp
qed

lemma randomIndex_alternating: "randomIndex alternating t 2 = t mod 2"
proof -
  have "t mod 2 = 0 \<or> t mod 2 = 1" by auto
  then show ?thesis
    by (auto simp: randomIndex_def Math_random_def alternating_def frac_def)
qed

lemma fairDraws_alternating: "fairDraws alternating 2"
  unfolding fairDraws_def
proof (intro allI impI)
  fix s i :: nat assume "i < 2"
  then have "s \<le> 2 * s + i \<and> randomIndex alternating (2 * s + i) 2 = i"
    by (simp add: randomIndex_alternating)
  then show "\<exists>t\<ge>s. randomIndex alternating t 2 = i" by blast
qed



section \<open>Vectors of different dimensions\<close>

lemma mismatched_distances:
  "euclideanDistance ideal [Fin 1, Fin 2, Fin 3] [Fin 1, Fin 2, Fin 3] = Fin 0"
  "euclideanDistance ideal [Fin 1, Fin 2] [Fin 1, Fin 2, Fin 3] = Fin 0"
  by (simp_all add: euclideanDistance_def js_nth_def ideal_ops)

text \<open>
  C3. \<open>clusterSoft\<close> rejects the points \<open>[1,2,3]\<close> and \<open>[1,2]\<close> with a dimension
  mismatch error. \<open>cluster\<close> and \<open>clusterMiniBatch\<close> have no such check: on the same
  points \<open>cluster\<close> returns a result in which the distance of \<open>[1,2]\<close> to the centroid
  \<open>[1,2,3]\<close> is \<open>0\<close>, the third coordinate being ignored, and \<open>clusterMiniBatch\<close>
  returns a result as well. Both return a result whatever the rounding of the arithmetic
  is; the distances are those of the arithmetic that does not round.
\<close>

theorem cluster_accepts_mismatched_dimensions:
  "cluster ideal (\<lambda>_. 0)
     [\<lparr>emb_id = ''a'', vector = [Fin 1, Fin 2, Fin 3]\<rparr>, \<lparr>emb_id = ''b'', vector = [Fin 1, Fin 2]\<rparr>]
     \<lparr>opt_k = 1, opt_maxIterations = None\<rparr> 0 =
   Inr (\<lparr>res_clusters = [\<lparr>cl_id = 0, cl_centroid = [Fin 1, Fin 2, Fin 3], cl_size = 2\<rparr>],
         res_assignments = [\<lparr>ca_id = ''a'', ca_clusterId = 0, ca_distance = Fin 0\<rparr>,
                            \<lparr>ca_id = ''b'', ca_clusterId = 0, ca_distance = Fin 0\<rparr>]\<rparr>, 1) \<and>
   (\<exists>res s'. clusterMiniBatch ideal alternating
     [\<lparr>emb_id = ''a'', vector = [Fin 1, Fin 2, Fin 3]\<rparr>, \<lparr>emb_id = ''b'', vector = [Fin 1, Fin 2]\<rparr>]
     \<lparr>mb_k = 1, mb_batchSize = None, mb_maxIterations = None\<rparr> 0 = Some (Inr (res, s'))) \<and>
   clusterSoft ideal (\<lambda>_. 0)
     [\<lparr>emb_id = ''a'', vector = [Fin 1, Fin 2, Fin 3]\<rparr>, \<lparr>emb_id = ''b'', vector = [Fin 1, Fin 2]\<rparr>]
     \<lparr>so_maxClusters = Some 2, so_minProbability = None, so_useBIC = None,
      so_maxIterations = None\<rparr> 0 =
   Inl (ClusteringError ''Error: Dimension mismatch: vector 1 has 2 dims, expected 3'') \<and>
   (\<forall>ar.
      (\<exists>d0 d1. cluster ar (\<lambda>_. 0)
         [\<lparr>emb_id = ''a'', vector = [Fin 1, Fin 2, Fin 3]\<rparr>, \<lparr>emb_id = ''b'', vector = [Fin 1, Fin 2]\<rparr>]
         \<lparr>opt_k = 1, opt_maxIterations = None\<rparr> 0 =
       Inr (\<lparr>res_clusters = [\<lparr>cl_id = 0, cl_centroid = [Fin 1, Fin 2, Fin 3], cl_size = 2\<rparr>],
             res_assignments = [\<lparr>ca_id = ''a'', ca_clusterId = 0, ca_distance = d0\<rparr>,
                                \<lparr>ca_id = ''b'', ca_clusterId = 0, ca_distance = d1\<rparr>]\<rparr>, 1)) \<and>
      (\<exists>res s'. clusterMiniBatch ar alternating
         [\<lparr>emb_id = ''a'', vector = [Fin 1, Fin 2, Fin 3]\<rparr>, \<lparr>emb_id = ''b'', vector = [Fin 1, Fin 2]\<rparr>]
         \<lparr>mb_k = 1, mb_batchSize = None, mb_maxIterations = None\<rparr> 0 = Some (Inr (res, s'))) \<and>
      clusterSoft ar (\<lambda>_. 0)
         [\<lparr>emb_id = ''a'', vector = [Fin 1, Fin 2, Fin 3]\<rparr>, \<lparr>emb_id = ''b'', vector = [Fin 1, Fin 2]\<rparr>]
         \<lparr>so_maxClusters = Some 2, so_minProbability = None, so_useBIC = None,
          so_maxIterations = None\<rparr> 0 =
       Inl (ClusteringError ''Error: Dimension mismatch: vector 1 has 2 dims, expected 3''))"
proof -
  let ?es = "[\<lparr>emb_id = ''a'', vector = [Fin 1, Fin 2, Fin 3]\<rparr>, \<lparr>emb_id = ''b'', vector = [Fin 1, Fin 2]\<rparr>]"
  have km: "kMeans ar (\<lambda>_. 0) (map vector ?es) 1 100 0 =
      Inr (([[Fin 1, Fin 2, Fin 3]], [0, 0]), 1)" for ar
    using kMeans_single_cluster[of "map vector ?es" ar "\<lambda>_. 0" 100 0]
    by (simp add: randomIndex_zero numeral_2_eq_2)
  have A: "cluster ideal (\<lambda>_. 0) ?es \<lparr>opt_k = 1, opt_maxIterations = None\<rparr> 0 =
   Inr (\<lparr>res_clusters = [\<lparr>cl_id = 0, cl_centroid = [Fin 1, Fin 2, Fin 3], cl_size = 2\<rparr>],
         res_assignments = [\<lparr>ca_id = ''a'', ca_clusterId = 0, ca_distance = Fin 0\<rparr>,
                            \<lparr>ca_id = ''b'', ca_clusterId = 0, ca_distance = Fin 0\<rparr>]\<rparr>, 1)"
    using km[of ideal] by (simp add: cluster_def buildResult_def mismatched_distances)
  have A': "\<exists>d0 d1. cluster ar (\<lambda>_. 0) ?es \<lparr>opt_k = 1, opt_maxIterations = None\<rparr> 0 =
   Inr (\<lparr>res_clusters = [\<lparr>cl_id = 0, cl_centroid = [Fin 1, Fin 2, Fin 3], cl_size = 2\<rparr>],
         res_assignments = [\<lparr>ca_id = ''a'', ca_clusterId = 0, ca_distance = d0\<rparr>,
                            \<lparr>ca_id = ''b'', ca_clusterId = 0, ca_distance = d1\<rparr>]\<rparr>, 1)" for ar
    using km[of ar] by (simp add: cluster_def buildResult_def)
  have B: "\<exists>res s'. clusterMiniBatch ar alternating ?es
     \<lparr>mb_k = 1, mb_batchSize = None, mb_maxIterations = None\<rparr> 0 = Some (Inr (res, s'))" for ar
  proof -
    have "miniBatchKMeans ar alternating (map vector ?es) 1 100 100 0 \<noteq> None"
      by (intro miniBatchKMeans_returns) (simp add: fairDraws_alternating flip: numeral_2_eq_2)
    then obtain q where q: "miniBatchKMeans ar alternating (map vector ?es) 1 100 100 0 = Some q"
      by blast
    from miniBatchKMeans_full_pass[OF q] obtain cs s' where
      "q = Inr ((cs, map (\<lambda>v. nearest ar v cs (nat 1)) (map vector ?es)), s')" by auto
    with q show ?thesis by (simp add: clusterMiniBatch_def)
  qed
  have C: "clusterSoft ar (\<lambda>_. 0) ?es
     \<lparr>so_maxClusters = Some 2, so_minProbability = None, so_useBIC = None,
      so_maxIterations = None\<rparr> 0 =
   Inl (ClusteringError ''Error: Dimension mismatch: vector 1 has 2 dims, expected 3'')" for ar
    by (simp add: clusterSoft_def upt_rec[of 1])
  from A A' B C show ?thesis by blast
qed

section \<open>Finite vectors and their distances\<close>

lemma sqDiff_fold:
  "finiteVec xs \<Longrightarrow> finiteVec b \<Longrightarrow> n + length xs \<le> length b \<Longrightarrow>
   foldl (\<lambda>sum (i, val). js_add ideal sum (js_sq ideal (js_sub ideal val (js_nth b i))))
      (Fin acc) (enumerate n xs)
     = Fin (acc + (\<Sum>i<length xs. (the_fin (xs ! i) - the_fin (b ! (n + i)))\<^sup>2))"
proof (induction xs arbitrary: acc n)
  case Nil
  then show ?case by simp
next
  case (Cons x xs)
  from Cons.prems(1) obtain r where x: "x = Fin r" and fx: "finiteVec xs"
    by (cases x) (auto simp: finiteVec_Cons)
  have nb: "n < length b" using Cons.prems(3) by simp
  then have bn: "js_nth b n = Fin (the_fin (b ! n))"
    using finiteVec_nth[OF Cons.prems(2)] by (simp add: js_nth_def)
  have step: "js_add ideal (Fin acc) (js_sq ideal (js_sub ideal x (js_nth b n))) =
      Fin (acc + (r - the_fin (b ! n))\<^sup>2)"
    by (simp add: x bn ideal_ops power2_eq_square)
  have "Suc n + length xs \<le> length b" using Cons.prems(3) by simp
  from Cons.IH[OF fx Cons.prems(2) this, of "acc + (r - the_fin (b ! n))\<^sup>2"]
  have ih: "foldl (\<lambda>sum (i, val). js_add ideal sum (js_sq ideal (js_sub ideal val (js_nth b i))))
      (Fin (acc + (r - the_fin (b ! n))\<^sup>2)) (enumerate (Suc n) xs) =
    Fin (acc + (r - the_fin (b ! n))\<^sup>2 +
      (\<Sum>i<length xs. (the_fin (xs ! i) - the_fin (b ! (Suc n + i)))\<^sup>2))" .
  have split: "(\<Sum>i<length (x # xs). (the_fin ((x # xs) ! i) - the_fin (b ! (n + i)))\<^sup>2) =
      (r - the_fin (b ! n))\<^sup>2 +
      (\<Sum>i<length xs. (the_fin (xs ! i) - the_fin (b ! (Suc n + i)))\<^sup>2)"
    by (simp add: sum.lessThan_Suc_shift x del: sum.lessThan_Suc)
  show ?case
    unfolding split using ih step by (simp add: add.assoc)
qed

lemma sqDist_nonneg: "0 \<le> sqDist a b"
  by (simp add: sqDist_def sum_nonneg)

lemma euclideanDistance_finite:
  assumes "finiteVec a" "finiteVec b" "length a \<le> length b"
  shows "euclideanDistance ideal a b = Fin (sqrt (sqDist a b))"
  using sqDiff_fold[OF assms(1,2), of 0 0] assms(3) sqDist_nonneg[of a b]
  by (simp add: euclideanDistance_def sqDist_def ideal_ops)

lemma sq_euclideanDistance_finite:
  assumes "finiteVec a" "finiteVec b" "length a \<le> length b"
  shows "js_sq ideal (euclideanDistance ideal a b) = Fin (sqDist a b)"
  using sqDist_nonneg[of a b]
  by (simp add: euclideanDistance_finite[OF assms] ideal_ops)

lemma foldl_js_add_fin:
  "(\<And>i. i \<in> set xs \<Longrightarrow> f i = Fin (g i)) \<Longrightarrow>
   foldl (\<lambda>acc i. js_add ideal acc (f i)) (Fin a) xs = Fin (a + sum_list (map g xs))"
  by (induction xs arbitrary: a) (simp_all add: add.assoc ideal_ops)

section \<open>The BIC score\<close>

lemma zip_indices:
  "length as = length vs \<Longrightarrow>
   map (\<lambda>i. g (vs ! i) (as ! i)) [0..<length vs] = map (\<lambda>(v, a). g v a) (zip vs as)"
  by (rule nth_equalityI) simp_all

lemma rss_loop:
  assumes "length assignments = length vectors"
  shows "foldl (\<lambda>rss i. js_add ar rss
                  (js_sq ar (euclideanDistance ar (vectors ! i) (centroids ! (assignments ! i)))))
           (Fin 0) [0..<length vectors] = rssOf ar vectors centroids assignments"
proof -
  let ?g = "\<lambda>v a. js_sq ar (euclideanDistance ar v (centroids ! a))"
  have "foldl (\<lambda>rss i. js_add ar rss (?g (vectors ! i) (assignments ! i))) (Fin 0) [0..<length vectors]
        = foldl (js_add ar) (Fin 0) (map (\<lambda>i. ?g (vectors ! i) (assignments ! i)) [0..<length vectors])"
    by (simp add: foldl_map)
  also have "\<dots> = rssOf ar vectors centroids assignments"
    unfolding zip_indices[OF assms, of ?g] by (simp add: rssOf_def)
  finally show ?thesis .
qed

lemma calculateBIC_bicScore:
  assumes "vectors \<noteq> []" "length assignments = length vectors"
  shows "calculateBIC ar vectors centroids assignments =
           Inr (bicScore ar (length vectors) (rssOf ar vectors centroids assignments)
                  (paramCount (length centroids) (length (hd vectors))))"
proof -
  obtain v0 vs where v: "vectors = v0 # vs" using assms(1) by (cases vectors) auto
  have pc: "real_of_int (int (length centroids) * int (length v0) + (int (length centroids) - 1))
      = paramCount (length centroids) (length v0)"
    by (simp add: paramCount_def)
  have "calculateBIC ar vectors centroids assignments =
      Inr (js_add ar (js_mul ar (Fin (real (length vectors))) (Math_log ar (js_div ar (js_add ar
              (foldl (\<lambda>rss i. js_add ar rss (js_sq ar (euclideanDistance ar (vectors ! i)
                 (centroids ! (assignments ! i))))) (Fin 0) [0..<length vectors])
              (fl ar (1 / 10 ^ 10))) (Fin (real (length vectors))))))
            (js_mul ar (Fin (real_of_int (int (length centroids) * int (length v0) + (int (length centroids) - 1))))
               (Math_log ar (Fin (real (length vectors))))))"
    unfolding calculateBIC_def Let_def by (simp add: v)
  then show ?thesis
    unfolding rss_loop[OF assms(2)] pc bicScore_def by (simp add: v)
qed

lemma rssOf_finite:
  assumes wv: "wellFormed vectors d" and wc: "wellFormed centroids d"
    and la: "length assignments = length vectors"
    and ra: "\<forall>a\<in>set assignments. a < length centroids"
  shows "rssOf ideal vectors centroids assignments = Fin (RSS vectors centroids assignments)"
proof -
  let ?n = "length vectors"
  let ?g = "\<lambda>i. sqDist (vectors ! i) (centroids ! (assignments ! i))"
  have tm: "js_sq ideal (euclideanDistance ideal (vectors ! i) (centroids ! (assignments ! i))) =
      Fin (?g i)" if "i \<in> set [0..<?n]" for i
  proof -
    from that have i: "i < ?n" by simp
    then have "assignments ! i < length centroids" using ra la by simp
    from wellFormed_nth[OF wc this] wellFormed_nth[OF wv i]
    show ?thesis by (intro sq_euclideanDistance_finite) simp_all
  qed
  have "foldl (\<lambda>rss i. js_add ideal rss (js_sq ideal (euclideanDistance ideal (vectors ! i)
                 (centroids ! (assignments ! i))))) (Fin 0) [0..<?n]
             = Fin (RSS vectors centroids assignments)"
    using foldl_js_add_fin[of "[0..<?n]" "\<lambda>i. js_sq ideal (euclideanDistance ideal (vectors ! i)
                 (centroids ! (assignments ! i)))" ?g 0, OF tm]
    by (simp add: RSS_def interv_sum_list_conv_sum_set_nat atLeast0LessThan)
  then show ?thesis unfolding rss_loop[OF la] .
qed

lemma Math_log_pos: "0 < y \<Longrightarrow> Math_log ideal (Fin y) = Fin (ln y)"
  by simp

lemma bicScore_ideal:
  assumes "0 < n" "0 \<le> rss"
  shows "bicScore ideal n (Fin rss) p = Fin (bicGuardInside (1 / 10 ^ 10) (real n) rss p)"
proof -
  have arg: "0 < (rss + 1 / 10 ^ 10) / real n"
    using assms by (intro divide_pos_pos add_nonneg_pos) simp_all
  have n0: "real n \<noteq> 0" "0 < real n" using assms(1) by simp_all
  have dv: "ex_div (ex_add (Fin rss) (Fin (1 / 10 ^ 10))) (Fin (real n)) =
      Fin ((rss + 1 / 10 ^ 10) / real n)"
    using n0(1) by simp
  have lg: "Math_log ideal (ex_div (ex_add (Fin rss) (Fin (1 / 10 ^ 10))) (Fin (real n))) =
      Fin (ln ((rss + 1 / 10 ^ 10) / real n))"
    unfolding dv using arg by (rule Math_log_pos)
  have lgn: "Math_log ideal (Fin (real n)) = Fin (ln (real n))" using n0 by simp
  show ?thesis
    unfolding bicScore_def ideal_ops ideal_fields lg lgn by (simp add: bicGuardInside_def)
qed

lemma RSS_nonneg: "0 \<le> RSS vectors centroids assignments"
  by (simp add: RSS_def sum_nonneg sqDist_nonneg)

lemma calculateBIC_value:
  assumes ne: "vectors \<noteq> []" and wv: "wellFormed vectors d" and wc: "wellFormed centroids d"
    and la: "length assignments = length vectors"
    and ra: "\<forall>a\<in>set assignments. a < length centroids"
  shows "calculateBIC ideal vectors centroids assignments =
           Inr (Fin (bicGuardInside (1 / 10 ^ 10) (real (length vectors))
                       (RSS vectors centroids assignments)
                       (paramCount (length centroids) d)))"
proof -
  have d: "length (hd vectors) = d" using ne wv by (cases vectors) (simp_all add: wellFormed_def)
  have n: "0 < length vectors" using ne by simp
  show ?thesis
    unfolding calculateBIC_bicScore[OF ne la] rssOf_finite[OF wv wc la ra] d
      bicScore_ideal[OF n RSS_nonneg] ..
qed

lemma sqDist_zero1: "sqDist [Fin 0] [Fin 0] = 0"
  by (simp add: sqDist_def)

lemma RSS_two: "RSS [[Fin 0], [Fin 0]] [[Fin 0]] [0, 0] = 0"
  by (simp add: RSS_def sqDist_zero1 lessThan_Suc numeral_2_eq_2)

lemma RSS_three: "RSS [[Fin 0], [Fin 0], [Fin 0]] [[Fin 0]] [0, 0, 0] = 0"
  by (simp add: RSS_def sqDist_zero1 lessThan_Suc numeral_3_eq_3)

lemma BIC_two:
  "calculateBIC ideal [[Fin 0], [Fin 0]] [[Fin 0]] [0, 0] =
     Inr (Fin (2 * ln (1 / 10 ^ 10 / 2) + ln 2))"
  using calculateBIC_value[of "[[Fin 0], [Fin 0]]" 1 "[[Fin 0]]" "[0, 0]"]
  by (simp add: wellFormed_def finiteVec_def RSS_two bicGuardInside_def paramCount_def)

lemma BIC_three:
  "calculateBIC ideal [[Fin 0], [Fin 0], [Fin 0]] [[Fin 0]] [0, 0, 0] =
     Inr (Fin (3 * ln (1 / 10 ^ 10 / 3) + ln 3))"
  using calculateBIC_value[of "[[Fin 0], [Fin 0], [Fin 0]]" 1 "[[Fin 0]]" "[0, 0, 0]"]
  by (simp add: wellFormed_def finiteVec_def RSS_three bicGuardInside_def paramCount_def)

text \<open>
  C5, as the code has it. For \<open>n \<ge> 1\<close> points, the first of dimension \<open>d\<close>, \<open>k\<close>
  centroids and an assignment of every point to one of them, the score is
  \<open>n\<cdot>ln((RSS + \<epsilon>)/n) + p\<cdot>ln(n)\<close> with \<open>\<epsilon> = 1e-10\<close>, \<open>RSS\<close> the sum of the squared
  Euclidean distances of the points to their assigned centroids and
  \<open>p = k\<cdot>d + (k - 1)\<close>, each operation being the one of the run's arithmetic, whatever
  its rounding is and whatever the coordinates are. The guard is added to \<open>RSS\<close> before
  the division by \<open>n\<close>. In the arithmetic that does not round, and for finite points
  and centroids of dimension \<open>d\<close>, the score is the real number
  \<open>n\<cdot>ln((RSS + \<epsilon>)/n) + p\<cdot>ln(n)\<close>; in the form \<open>n\<cdot>ln(RSS/n + \<epsilon>') + p\<cdot>ln(n)\<close> the
  guard is \<open>\<epsilon>' = 1e-10 / n\<close>, which depends on the number of points.
\<close>

theorem calculateBIC_formula:
  assumes "vectors \<noteq> []" "length assignments = length vectors"
    "\<forall>a\<in>set assignments. a < length centroids"
  shows "calculateBIC ar vectors centroids assignments =
           Inr (bicScore ar (length vectors) (rssOf ar vectors centroids assignments)
                  (paramCount (length centroids) (length (hd vectors)))) \<and>
         (wellFormed vectors d \<and> wellFormed centroids d \<longrightarrow>
            calculateBIC ideal vectors centroids assignments =
              Inr (Fin (real (length vectors) *
                          ln ((RSS vectors centroids assignments + 1 / 10 ^ 10) / real (length vectors)) +
                        paramCount (length centroids) d * ln (real (length vectors)))) \<and>
            calculateBIC ideal vectors centroids assignments =
              Inr (Fin (bicGuardOutside (1 / 10 ^ 10 / real (length vectors)) (real (length vectors))
                          (RSS vectors centroids assignments) (paramCount (length centroids) d))))"
proof (intro conjI impI)
  show "calculateBIC ar vectors centroids assignments =
           Inr (bicScore ar (length vectors) (rssOf ar vectors centroids assignments)
                  (paramCount (length centroids) (length (hd vectors))))"
    using assms(1,2) by (rule calculateBIC_bicScore)
next
  assume w: "wellFormed vectors d \<and> wellFormed centroids d"
  note v = calculateBIC_value[OF assms(1) w[THEN conjunct1] w[THEN conjunct2] assms(2,3)]
  show "calculateBIC ideal vectors centroids assignments =
              Inr (Fin (real (length vectors) *
                          ln ((RSS vectors centroids assignments + 1 / 10 ^ 10) / real (length vectors)) +
                        paramCount (length centroids) d * ln (real (length vectors))))"
    using v by (simp add: bicGuardInside_def)
  show "calculateBIC ideal vectors centroids assignments =
              Inr (Fin (bicGuardOutside (1 / 10 ^ 10 / real (length vectors)) (real (length vectors))
                          (RSS vectors centroids assignments) (paramCount (length centroids) d)))"
    using v by (simp add: bicGuardInside_def bicGuardOutside_def add_divide_distrib)
qed

theorem calculateBIC_formula_witness:
  "calculateBIC ideal [[Fin 0], [Fin 0]] [[Fin 0]] [0, 0] =
     Inr (bicScore ideal 2 (rssOf ideal [[Fin 0], [Fin 0]] [[Fin 0]] [0, 0]) (paramCount 1 1)) \<and>
   calculateBIC ideal [[Fin 0], [Fin 0]] [[Fin 0]] [0, 0] =
     Inr (Fin (2 * ln ((0 + 1 / 10 ^ 10) / 2) + 1 * ln 2))"
proof -
  have h: "[[Fin 0], [Fin 0]] \<noteq> ([] :: vec list)" "length [0, 0 :: nat] = length [[Fin 0], [Fin 0]]"
    "\<forall>a\<in>set [0, 0 :: nat]. a < length [[Fin 0]]" by simp_all
  have w: "wellFormed [[Fin 0], [Fin 0]] 1 \<and> wellFormed [[Fin 0]] 1"
    by (simp add: wellFormed_def finiteVec_def)
  note th = calculateBIC_formula[OF h, of ideal 1]
  have A: "calculateBIC ideal [[Fin 0], [Fin 0]] [[Fin 0]] [0, 0] =
     Inr (bicScore ideal 2 (rssOf ideal [[Fin 0], [Fin 0]] [[Fin 0]] [0, 0]) (paramCount 1 1))"
    using th[THEN conjunct1] by (simp flip: numeral_2_eq_2)
  have B: "calculateBIC ideal [[Fin 0], [Fin 0]] [[Fin 0]] [0, 0] =
     Inr (Fin (2 * ln ((0 + 1 / 10 ^ 10) / 2) + 1 * ln 2))"
    using th[THEN conjunct2, rule_format, OF w, THEN conjunct1]
    by (simp add: RSS_two paramCount_def)
  from A B show ?thesis by (rule conjI)
qed

text \<open>
  C5, as stated, has a constant \<open>\<epsilon>\<close> next to \<open>RSS/n\<close>. No positive constant fits both
  the clustering of two points and the clustering of three points into one cluster, each
  with residual sum \<open>0\<close> (the \<open>k = 1\<close> candidates that the selection scores for two and
  for three equal points): the first forces \<open>\<epsilon> = 1e-10 / 2\<close>, the second
  \<open>\<epsilon> = 1e-10 / 3\<close>.
\<close>

theorem calculateBIC_constant_guard_counterexample:
  "\<not> (\<exists>eps>0.
        calculateBIC ideal [[Fin 0], [Fin 0]] [[Fin 0]] [0, 0] =
          Inr (Fin (bicGuardOutside eps 2 (RSS [[Fin 0], [Fin 0]] [[Fin 0]] [0, 0])
                      (paramCount 1 1))) \<and>
        calculateBIC ideal [[Fin 0], [Fin 0], [Fin 0]] [[Fin 0]] [0, 0, 0] =
          Inr (Fin (bicGuardOutside eps 3 (RSS [[Fin 0], [Fin 0], [Fin 0]] [[Fin 0]] [0, 0, 0])
                      (paramCount 1 1))))"
proof
  assume "\<exists>eps>0.
        calculateBIC ideal [[Fin 0], [Fin 0]] [[Fin 0]] [0, 0] =
          Inr (Fin (bicGuardOutside eps 2 (RSS [[Fin 0], [Fin 0]] [[Fin 0]] [0, 0])
                      (paramCount 1 1))) \<and>
        calculateBIC ideal [[Fin 0], [Fin 0], [Fin 0]] [[Fin 0]] [0, 0, 0] =
          Inr (Fin (bicGuardOutside eps 3 (RSS [[Fin 0], [Fin 0], [Fin 0]] [[Fin 0]] [0, 0, 0])
                      (paramCount 1 1)))"
  then obtain eps :: real where pos: "0 < eps"
    and two: "2 * ln (1 / 10 ^ 10 / 2) + ln 2 = 2 * ln eps + ln (2::real)"
    and three: "3 * ln (1 / 10 ^ 10 / 3) + ln 3 = 3 * ln eps + ln (3::real)"
    unfolding BIC_two BIC_three RSS_two RSS_three
    by (auto simp: bicGuardOutside_def paramCount_def)
  from two have "ln (1 / 10 ^ 10 / 2) = ln eps" by simp
  with pos have e2: "eps = 1 / 10 ^ 10 / 2" by (simp add: ln_inj_iff)
  from three have "ln (1 / 10 ^ 10 / 3) = ln eps" by simp
  with pos have e3: "eps = 1 / 10 ^ 10 / 3" by (simp add: ln_inj_iff)
  from e2 e3 show False by simp
qed

section \<open>The selection loop\<close>

lemma kMeans_throws:
  "k \<le> 0 \<or> k > int (length vectors) \<Longrightarrow> \<exists>e. kMeans ar rnd vectors k mi s = Inl e"
  by (auto simp: kMeans_def)

lemma calculateBIC_returns:
  "vectors \<noteq> [] \<Longrightarrow> \<exists>b. calculateBIC ar vectors centroids assignments = Inr b"
  by (cases vectors) (simp_all add: calculateBIC_def Let_def)

lemma bicLoop_scores:
  "\<exists>bk bb. bicLoop ar rnd vectors mi ks (bestK, bestBIC, scores, s) =
      (bk, bb, scores @ fst (candidateScores ar rnd vectors mi ks s),
       snd (candidateScores ar rnd vectors mi ks s))"
proof (induction ks arbitrary: bestK bestBIC scores s)
  case Nil
  then show ?case by simp
next
  case (Cons k ks)
  show ?case
  proof (cases "kMeans ar rnd vectors k mi s")
    case (Inl e)
    with Cons.IH[of bestK bestBIC scores s] show ?thesis by simp
  next
    case (Inr q)
    obtain cs as s' where q: "q = ((cs, as), s')" by (cases q) auto
    show ?thesis
    proof (cases "calculateBIC ar vectors cs as")
      case (Inl e)
      with Cons.IH[of bestK bestBIC scores s'] Inr q show ?thesis by simp
    next
      case bic: (Inr b)
      obtain rest s'' where cr: "candidateScores ar rnd vectors mi ks s' = (rest, s'')"
        by (cases "candidateScores ar rnd vectors mi ks s'")
      from Cons.IH[of k b "scores @ [(k, b)]" s'] Cons.IH[of bestK bestBIC "scores @ [(k, b)]" s']
      show ?thesis using Inr q bic cr by auto
    qed
  qed
qed

lemma candidateScores_keys:
  assumes "vectors \<noteq> []"
  shows "map fst (fst (candidateScores ar rnd vectors mi ks s)) =
           filter (\<lambda>k. 0 < k \<and> k \<le> int (length vectors)) ks"
proof (induction ks arbitrary: s)
  case Nil
  then show ?case by simp
next
  case (Cons k ks)
  show ?case
  proof (cases "0 < k \<and> k \<le> int (length vectors)")
    case False
    then have "k \<le> 0 \<or> k > int (length vectors)" by auto
    from kMeans_throws[OF this, of ar rnd mi s] obtain e where
      "kMeans ar rnd vectors k mi s = Inl e" by blast
    with Cons.IH[of s] False show ?thesis by simp
  next
    case True
    from kMeans_shape[OF assms, of k ar rnd mi s] True obtain cs as s' where
      km: "kMeans ar rnd vectors k mi s = Inr ((cs, as), s')" by auto
    from calculateBIC_returns[OF assms, of ar cs as] obtain b where
      bic: "calculateBIC ar vectors cs as = Inr b" by blast
    obtain rest s'' where cr: "candidateScores ar rnd vectors mi ks s' = (rest, s'')"
      by (cases "candidateScores ar rnd vectors mi ks s'")
    from Cons.IH[of s'] True show ?thesis by (simp add: km bic cr)
  qed
qed

lemma bicLoop_skip:
  "k \<le> 0 \<or> k > int (length vectors) \<Longrightarrow>
   bicLoop ar rnd vectors mi (k # ks) st = bicLoop ar rnd vectors mi ks st"
proof -
  assume k: "k \<le> 0 \<or> k > int (length vectors)"
  obtain bestK bestBIC scores s where st: "st = (bestK, bestBIC, scores, s)"
    using prod_cases4 by blast
  from kMeans_throws[OF k, of ar rnd mi s] obtain e where
    "kMeans ar rnd vectors k mi s = Inl e" by blast
  then show ?thesis by (simp add: st)
qed

text \<open>
  The state of the selection after some candidates, scanned in ascending order of \<open>k\<close>.
\<close>

lemma js_lt_PInf_left: "js_lt a b \<Longrightarrow> js_lt a PInf"
  by (cases a; cases b) auto

lemma selection_step:
  assumes inv:
    "if \<exists>(k', b')\<in>set scores. js_lt b' PInf
     then (bestK, bestBIC) \<in> set scores \<and> js_lt bestBIC PInf \<and>
          (\<forall>(k', b')\<in>set scores. \<not> js_lt b' bestBIC \<and> (k' < bestK \<longrightarrow> \<not> js_le b' bestBIC))
     else bestK = k0 \<and> bestBIC = PInf"
    and keys: "\<forall>(k', b')\<in>set (scores :: (int \<times> number) list). k' < k"
    and nb: "bestK' = (if js_lt b bestBIC then k else bestK)"
       "bestBIC' = (if js_lt b bestBIC then b else bestBIC)"
  shows
    "if \<exists>(k', b')\<in>set (scores @ [(k, b)]). js_lt b' PInf
     then (bestK', bestBIC') \<in> set (scores @ [(k, b)]) \<and> js_lt bestBIC' PInf \<and>
          (\<forall>(k', b')\<in>set (scores @ [(k, b)]).
              \<not> js_lt b' bestBIC' \<and> (k' < bestK' \<longrightarrow> \<not> js_le b' bestBIC'))
     else bestK' = k0 \<and> bestBIC' = PInf"
proof (cases "js_lt b bestBIC")
  case True
  then have bp: "js_lt b PInf" by (rule js_lt_PInf_left)
  have none: "\<not> js_lt b' bestBIC" if "(k', b') \<in> set scores" for k' b'
  proof (cases "\<exists>(k', b')\<in>set scores. js_lt b' PInf")
    case True
    with inv that show ?thesis by auto
  next
    case False
    with inv have "bestBIC = PInf" by simp
    with False that show ?thesis by auto
  qed
  have old: "\<not> js_lt b' b \<and> \<not> js_le b' b" if "(k', b') \<in> set scores" for k' b'
  proof -
    have "\<not> js_le b' b"
    proof
      assume "js_le b' b"
      then have "js_lt b' bestBIC" using True by (rule js_le_lt_trans)
      with none[OF that] show False by simp
    qed
    moreover have "\<not> js_lt b' b" using calculation js_lt_imp_le by blast
    ultimately show ?thesis by simp
  qed
  have new: "bestK' = k" "bestBIC' = b" using True nb by simp_all
  have ex: "\<exists>(k', b')\<in>set (scores @ [(k, b)]). js_lt b' PInf" using bp by auto
  have all: "\<not> js_lt b' b \<and> (k' < k \<longrightarrow> \<not> js_le b' b)"
    if "(k', b') \<in> set (scores @ [(k, b)])" for k' b'
  proof (cases "(k', b') \<in> set scores")
    case True
    with old show ?thesis by blast
  next
    case False
    with that have "k' = k" "b' = b" by simp_all
    then show ?thesis by (simp add: js_lt_irrefl)
  qed
  have "(k, b) \<in> set (scores @ [(k, b)]) \<and> js_lt b PInf \<and>
        (\<forall>(k', b')\<in>set (scores @ [(k, b)]). \<not> js_lt b' b \<and> (k' < k \<longrightarrow> \<not> js_le b' b))"
    using bp all by auto
  with ex show ?thesis unfolding new by simp
next
  case False
  show ?thesis
  proof (cases "\<exists>(k', b')\<in>set scores. js_lt b' PInf")
    case True
    with inv have mem: "(bestK, bestBIC) \<in> set scores" and lt: "js_lt bestBIC PInf"
      and low: "\<forall>(k', b')\<in>set scores. \<not> js_lt b' bestBIC \<and> (k' < bestK \<longrightarrow> \<not> js_le b' bestBIC)"
      by simp_all
    from keys mem have "bestK < k" by auto
    then show ?thesis using False True mem lt low nb by auto
  next
    case none: False
    with inv have "bestK = k0" "bestBIC = PInf" by simp_all
    with False none nb show ?thesis by auto
  qed
qed

lemma bicLoop_selection:
  assumes ne: "vectors \<noteq> []"
  shows "\<forall>k\<in>set ks. 0 < k \<and> k \<le> int (length vectors) \<Longrightarrow> sorted_wrt (<) ks \<Longrightarrow>
         \<forall>k\<in>set ks. \<forall>(k', b')\<in>set scores. k' < k \<Longrightarrow>
         (if \<exists>(k', b')\<in>set scores. js_lt b' PInf
          then (bestK, bestBIC) \<in> set scores \<and> js_lt bestBIC PInf \<and>
               (\<forall>(k', b')\<in>set scores. \<not> js_lt b' bestBIC \<and> (k' < bestK \<longrightarrow> \<not> js_le b' bestBIC))
          else bestK = k0 \<and> bestBIC = PInf) \<Longrightarrow>
         \<exists>bestK' bestBIC' scores' s'.
            bicLoop ar rnd vectors mi ks (bestK, bestBIC, scores, s) = (bestK', bestBIC', scores', s') \<and>
            (if \<exists>(k', b')\<in>set scores'. js_lt b' PInf
             then (bestK', bestBIC') \<in> set scores' \<and> js_lt bestBIC' PInf \<and>
                  (\<forall>(k', b')\<in>set scores'. \<not> js_lt b' bestBIC' \<and> (k' < bestK' \<longrightarrow> \<not> js_le b' bestBIC'))
             else bestK' = k0 \<and> bestBIC' = PInf)"
proof (induction ks arbitrary: bestK bestBIC scores s)
  case Nil
  then show ?case by simp
next
  case (Cons k ks)
  have kv: "0 < k" "k \<le> int (length vectors)" using Cons.prems(1) by simp_all
  from kMeans_shape[OF ne kv, of ar rnd mi s] obtain cs as s' where
    km: "kMeans ar rnd vectors k mi s = Inr ((cs, as), s')" by blast
  from calculateBIC_returns[OF ne, of ar cs as] obtain b where
    bic: "calculateBIC ar vectors cs as = Inr b" by blast
  let ?bk = "if js_lt b bestBIC then k else bestK"
  let ?bb = "if js_lt b bestBIC then b else bestBIC"
  let ?sc = "scores @ [(k, b)]"
  have step: "bicLoop ar rnd vectors mi (k # ks) (bestK, bestBIC, scores, s) =
      bicLoop ar rnd vectors mi ks (?bk, ?bb, ?sc, s')"
    by (simp add: km bic)
  have keys: "\<forall>(k', b')\<in>set scores. k' < k" using Cons.prems(3) by simp
  note inv = selection_step[OF Cons.prems(4) keys refl refl, of b]
  have p1: "\<forall>k\<in>set ks. 0 < k \<and> k \<le> int (length vectors)" using Cons.prems(1) by simp
  have p2: "sorted_wrt (<) ks" using Cons.prems(2) by simp
  have p3: "\<forall>k'\<in>set ks. \<forall>(k'', b')\<in>set ?sc. k'' < k'"
    using Cons.prems(2,3) by auto
  from Cons.IH[OF p1 p2 p3 inv, of s'] show ?case
    unfolding step .
qed

section \<open>Selection of \<open>k\<close> by BIC\<close>

lemma validateDims_None:
  "\<forall>i<length vectors. length (vectors ! i) = d \<Longrightarrow> \<forall>i\<in>set ixs. i < length vectors \<Longrightarrow>
   validateDims vectors d ixs = None"
  by (induction ixs) simp_all

lemma candidateMax_le: "candidateMax options n \<le> int n"
  "candidateMax options n \<le> (case so_maxClusters options of None \<Rightarrow> 10 | Some m \<Rightarrow> m)"
  by (simp_all add: candidateMax_def)

lemma selection_valid:
  assumes n2: "2 \<le> length vectors" and mk: "1 < maxK" "maxK \<le> int (length vectors)"
  shows "\<exists>bestK bestBIC scores s1.
           bicLoop ar rnd vectors mi [1..maxK] (1, PInf, [], s) = (bestK, bestBIC, scores, s1) \<and>
           scores = fst (candidateScores ar rnd vectors mi [1..maxK] s) \<and>
           s1 = snd (candidateScores ar rnd vectors mi [1..maxK] s) \<and>
           map fst scores = [1..maxK] \<and>
           1 \<le> bestK \<and> bestK \<le> maxK \<and> selectedBy scores bestK \<and>
           (list_all (\<lambda>(k, b). b \<noteq> NaN) scores \<longrightarrow> lowestBIC scores bestK)"
proof -
  have ne: "vectors \<noteq> []" using n2 by auto
  have p1: "\<forall>k\<in>set [1..maxK]. 0 < k \<and> k \<le> int (length vectors)" using mk by auto
  have p2: "sorted_wrt (<) [1..maxK]" by (simp add: strict_sorted_iff)
  have p3: "\<forall>k\<in>set [1..maxK]. \<forall>(k', b')\<in>set ([] :: (int \<times> number) list). k' < k" by simp
  have p4: "if \<exists>(k', b')\<in>set ([] :: (int \<times> number) list). js_lt b' PInf
          then (1, PInf) \<in> set ([] :: (int \<times> number) list) \<and> js_lt PInf PInf \<and>
               (\<forall>(k', b')\<in>set ([] :: (int \<times> number) list).
                   \<not> js_lt b' PInf \<and> (k' < 1 \<longrightarrow> \<not> js_le b' PInf))
          else (1::int) = 1 \<and> PInf = PInf" by simp
  from bicLoop_selection[OF ne p1 p2 p3 p4, of ar rnd mi s] obtain bestK bestBIC scores s1 where
    run: "bicLoop ar rnd vectors mi [1..maxK] (1, PInf, [], s) = (bestK, bestBIC, scores, s1)"
    and inv: "if \<exists>(k', b')\<in>set scores. js_lt b' PInf
             then (bestK, bestBIC) \<in> set scores \<and> js_lt bestBIC PInf \<and>
                  (\<forall>(k', b')\<in>set scores. \<not> js_lt b' bestBIC \<and> (k' < bestK \<longrightarrow> \<not> js_le b' bestBIC))
             else bestK = 1 \<and> bestBIC = PInf"
    by blast
  from bicLoop_scores[of ar rnd vectors mi "[1..maxK]" 1 PInf "[]" s] obtain bk bb where
    "bicLoop ar rnd vectors mi [1..maxK] (1, PInf, [], s) =
       (bk, bb, [] @ fst (candidateScores ar rnd vectors mi [1..maxK] s),
        snd (candidateScores ar rnd vectors mi [1..maxK] s))" by blast
  with run have sc: "scores = fst (candidateScores ar rnd vectors mi [1..maxK] s)"
    and s1: "s1 = snd (candidateScores ar rnd vectors mi [1..maxK] s)" by simp_all
  have keys: "map fst scores = [1..maxK]"
    unfolding sc candidateScores_keys[OF ne] using p1 by (simp add: filter_id_conv)
  have kmem: "1 \<le> k' \<and> k' \<le> maxK" if "(k', b') \<in> set scores" for k' b'
  proof -
    from that have "k' \<in> set (map fst scores)" by force
    then show ?thesis unfolding keys by simp
  qed
  have rng: "1 \<le> bestK \<and> bestK \<le> maxK"
  proof (cases "\<exists>(k', b')\<in>set scores. js_lt b' PInf")
    case True
    with inv have "(bestK, bestBIC) \<in> set scores" by simp
    then show ?thesis by (rule kmem)
  next
    case False
    with inv mk show ?thesis by simp
  qed
  have sel: "selectedBy scores bestK"
  proof (cases "\<exists>(k', b')\<in>set scores. js_lt b' PInf")
    case True
    with inv have mem: "(bestK, bestBIC) \<in> set scores" and lt: "js_lt bestBIC PInf"
      and low: "\<forall>(k', b')\<in>set scores. \<not> js_lt b' bestBIC \<and> (k' < bestK \<longrightarrow> \<not> js_le b' bestBIC)"
      by simp_all
    have ex: "list_ex (\<lambda>(k, b). js_lt b PInf) scores"
      using True by (auto simp: list_ex_iff)
    have "list_ex (\<lambda>(k, b). k = bestK \<and> js_lt b PInf \<and>
                      list_all (\<lambda>(k', b'). \<not> js_lt b' b \<and> (k' < bestK \<longrightarrow> \<not> js_le b' b))
                        scores) scores"
      unfolding list_ex_iff list_all_iff using mem lt low by blast
    with ex show ?thesis by (simp add: selectedBy_def)
  next
    case False
    then have "\<not> list_ex (\<lambda>(k, b). js_lt b PInf) scores" by (auto simp: list_ex_iff)
    with False inv show ?thesis by (simp add: selectedBy_def)
  qed
  have low: "lowestBIC scores bestK" if nn: "list_all (\<lambda>(k, b). b \<noteq> NaN) scores"
  proof (cases "\<exists>(k', b')\<in>set scores. js_lt b' PInf")
    case True
    with inv have mem: "(bestK, bestBIC) \<in> set scores" and lt: "js_lt bestBIC PInf"
      and lw: "\<forall>(k', b')\<in>set scores. \<not> js_lt b' bestBIC \<and> (k' < bestK \<longrightarrow> \<not> js_le b' bestBIC)"
      by simp_all
    have bn: "bestBIC \<noteq> NaN" using lt by auto
    have "js_le bestBIC b' \<and> (k' < bestK \<longrightarrow> js_lt bestBIC b')"
      if m: "(k', b') \<in> set scores" for k' b'
    proof -
      from nn m have b'n: "b' \<noteq> NaN" by (auto simp: list_all_iff)
      from lw m have a: "\<not> js_lt b' bestBIC" and b: "k' < bestK \<longrightarrow> \<not> js_le b' bestBIC" by auto
      from a b'n bn have le: "js_le bestBIC b'" by (intro js_not_lt_imp_le) simp_all
      have "js_lt bestBIC b'" if "k' < bestK"
      proof -
        from b that have "\<not> js_le b' bestBIC" by simp
        with b'n bn show ?thesis by (cases b'; cases bestBIC) auto
      qed
      with le show ?thesis by simp
    qed
    then show ?thesis
      unfolding lowestBIC_def list_ex_iff list_all_iff using mem by blast
  next
    case False
    with inv have bk: "bestK = 1" by simp
    have "(1::int) \<in> set (map fst scores)" unfolding keys using mk by simp
    then obtain b1 where m1: "(1, b1) \<in> set scores" by auto
    have allP: "b' = PInf" if "(k', b') \<in> set scores" for k' b'
    proof -
      from nn that have "b' \<noteq> NaN" by (auto simp: list_all_iff)
      moreover from False that have "\<not> js_lt b' PInf" by auto
      ultimately show ?thesis by (cases b') auto
    qed
    have "js_le b1 b' \<and> (k' < 1 \<longrightarrow> js_lt b1 b')" if m: "(k', b') \<in> set scores" for k' b'
      using allP[OF m] allP[OF m1] kmem[OF m] by simp
    then show ?thesis
      unfolding lowestBIC_def list_ex_iff list_all_iff bk using m1 by blast
  qed
  show ?thesis
    using run sc s1 keys rng sel low by (intro exI[of _ bestK] exI[of _ bestBIC] exI[of _ scores] exI[of _ s1]) simp
qed

lemma softCluster_run:
  "kMeans ar rnd vectors k mi s = Inr ((cs, as), s') \<Longrightarrow>
   softCluster ar rnd vectors k mi t s = Inr ((cs, softAssignmentsOf ar vectors cs k t), s')"
  by (simp add: softCluster_def)

lemma clusterSoft_run:
  assumes n2: "2 \<le> length embeddings" and dm: "\<forall>e\<in>set embeddings. length (vector e) = d"
    and sel: "(if (case so_useBIC options of None \<Rightarrow> True | Some u \<Rightarrow> u) \<and>
                  candidateMax options (length embeddings) > 1
              then bicLoop ar rnd (map vector embeddings)
                     (case so_maxIterations options of None \<Rightarrow> 100 | Some m \<Rightarrow> m)
                     [1..candidateMax options (length embeddings)] (1, PInf, [], s)
              else (candidateMax options (length embeddings), PInf, [], s))
            = (bestK, bestBIC, scores, s1)"
    and km: "kMeans ar rnd (map vector embeddings) bestK
               (case so_maxIterations options of None \<Rightarrow> 100 | Some m \<Rightarrow> m) s1 = Inr ((cs, as), s2)"
  shows "clusterSoft ar rnd embeddings options s =
     Inr (\<lparr>numClusters = bestK,
           softAssignments =
             map (\<lambda>a. \<lparr>chunkId = emb_id (embeddings ! vectorIdx a),
                        sa_clusterId = raw_clusterId a,
                        probability = raw_probability a\<rparr>)
               (filter (\<lambda>a. js_ge (raw_probability a) (cutoff ar options))
                  (softAssignmentsOf ar (map vector embeddings) cs bestK (Fin (1 / 2)))),
           sr_centroids = map (\<lambda>(idx, v). \<lparr>cc_clusterId = idx, cc_vector = v\<rparr>) (enumerate 0 cs),
           metadata = (if (case so_useBIC options of None \<Rightarrow> True | Some u \<Rightarrow> u)
                       then Some \<lparr>bicScores = Some scores, selectedK = Some bestK\<rparr>
                       else None)\<rparr>, s2)"
proof -
  have l: "length embeddings \<noteq> 0" "length embeddings \<noteq> 1" using n2 by auto
  have dd: "\<forall>i<length (map vector embeddings). length (map vector embeddings ! i) = d"
    using dm by simp
  have "0 < length (map vector embeddings)" using n2 by auto
  with dd have d: "length (map vector embeddings ! 0) = d" by blast
  have vd: "validateDims (map vector embeddings) d [1..<length embeddings] = None"
    by (rule validateDims_None[OF dd]) simp
  show ?thesis
    unfolding clusterSoft_def Let_def
    by (simp only: l if_False d vd option.case
        candidateMax_def[symmetric, of options "length embeddings", simplified]
        cutoff_def[symmetric]
        length_map sel prod.case softCluster_run[OF km] sum.case)
qed

text \<open>
  C4, as the code has it. Let the points be at least two vectors of one dimension,
  \<open>useBIC\<close> be set and \<open>maxK = min(maxClusters, n)\<close> exceed \<open>1\<close>. Then \<open>clusterSoft\<close>
  succeeds and reports the scores of \<open>k = 1 .. maxK\<close> in this order, each the
  \<open>calculateBIC\<close> score of the \<open>kMeans\<close> run for that \<open>k\<close>: no candidate throws and
  none is skipped. The selected \<open>k\<close> (also the number of clusters of the result) lies
  in \<open>[1, maxK]\<close>. When some score is below \<open>Infinity\<close>, the score of the selected
  \<open>k\<close> is below \<open>Infinity\<close>, no score is strictly below it and no smaller \<open>k\<close> has a
  score \<open>\<le>\<close> it; when no score is below \<open>Infinity\<close> the selected \<open>k\<close> is \<open>1\<close>.
  When no score is \<open>NaN\<close>, the selected \<open>k\<close> has a score \<open>\<le>\<close> every reported score
  and strictly below the score of every smaller \<open>k\<close>: among equal scores the smallest
  \<open>k\<close> is selected.

  The loop itself, run on any list of candidates from any state, returns; it scores
  exactly the candidates with \<open>0 < k \<le> n\<close>, in order, and a candidate outside this
  range, whose \<open>kMeans\<close> run throws, leaves the state of the loop as it was. This holds
  for every rounding of the arithmetic and for all coordinates.
\<close>

theorem clusterSoft_selects_lowest_BIC:
  assumes "2 \<le> length embeddings" "\<forall>e\<in>set embeddings. length (vector e) = d"
    "so_useBIC options \<noteq> Some False"
    "1 < candidateMax options (length embeddings)"
  shows "(\<exists>r s' scores. clusterSoft ar rnd embeddings options s = Inr (r, s') \<and>
           metadata r = Some \<lparr>bicScores = Some scores, selectedK = Some (numClusters r)\<rparr> \<and>
           scores = fst (candidateScores ar rnd (map vector embeddings)
                           (case so_maxIterations options of None \<Rightarrow> 100 | Some m \<Rightarrow> m)
                           [1..candidateMax options (length embeddings)] s) \<and>
           map fst scores = [1..candidateMax options (length embeddings)] \<and>
           1 \<le> numClusters r \<and> numClusters r \<le> candidateMax options (length embeddings) \<and>
           numClusters r \<le> (case so_maxClusters options of None \<Rightarrow> 10 | Some m \<Rightarrow> m) \<and>
           selectedBy scores (numClusters r) \<and>
           (list_all (\<lambda>(k, b). b \<noteq> NaN) scores \<longrightarrow> lowestBIC scores (numClusters r))) \<and>
         (\<forall>ks bestK bestBIC acc t. \<exists>bk bb.
            bicLoop ar rnd (map vector embeddings) mi ks (bestK, bestBIC, acc, t) =
              (bk, bb, acc @ fst (candidateScores ar rnd (map vector embeddings) mi ks t),
               snd (candidateScores ar rnd (map vector embeddings) mi ks t)) \<and>
            map fst (fst (candidateScores ar rnd (map vector embeddings) mi ks t)) =
              filter (\<lambda>k. 0 < k \<and> k \<le> int (length embeddings)) ks) \<and>
         (\<forall>k ks st. k \<le> 0 \<or> k > int (length embeddings) \<longrightarrow>
            bicLoop ar rnd (map vector embeddings) mi (k # ks) st =
              bicLoop ar rnd (map vector embeddings) mi ks st)"
proof (intro conjI allI impI)
  let ?vs = "map vector embeddings"
  let ?mi = "case so_maxIterations options of None \<Rightarrow> 100 | Some m \<Rightarrow> m"
  let ?maxK = "candidateMax options (length embeddings)"
  have ub: "(case so_useBIC options of None \<Rightarrow> True | Some u \<Rightarrow> u) = True"
    using assms(3) by (cases "so_useBIC options") auto
  have n2: "2 \<le> length ?vs" using assms(1) by simp
  have mk: "1 < ?maxK" "?maxK \<le> int (length ?vs)"
    using assms(4) candidateMax_le(1)[of options "length embeddings"] by simp_all
  from selection_valid[OF n2 mk, of ar rnd ?mi s]
  obtain bestK bestBIC scores s1 where
    sel: "bicLoop ar rnd ?vs ?mi [1..?maxK] (1, PInf, [], s) = (bestK, bestBIC, scores, s1)"
    and sc: "scores = fst (candidateScores ar rnd ?vs ?mi [1..?maxK] s)"
      "map fst scores = [1..?maxK]"
    and rng: "1 \<le> bestK" "bestK \<le> ?maxK"
    and lw: "selectedBy scores bestK"
      "list_all (\<lambda>(k, b). b \<noteq> NaN) scores \<longrightarrow> lowestBIC scores bestK"
    by blast
  have ne: "?vs \<noteq> []" using n2 by auto
  have kv: "0 < bestK" "bestK \<le> int (length ?vs)" using rng mk by simp_all
  from kMeans_shape[OF ne kv, of ar rnd ?mi s1] obtain cs as s2 where
    km: "kMeans ar rnd ?vs bestK ?mi s1 = Inr ((cs, as), s2)" by blast
  have sel': "(if (case so_useBIC options of None \<Rightarrow> True | Some u \<Rightarrow> u) \<and> ?maxK > 1
              then bicLoop ar rnd ?vs ?mi [1..?maxK] (1, PInf, [], s)
              else (?maxK, PInf, [], s)) = (bestK, bestBIC, scores, s1)"
    using sel ub assms(4) by simp
  note run = clusterSoft_run[OF assms(1,2) sel' km]
  from run ub obtain r where r: "clusterSoft ar rnd embeddings options s = Inr (r, s2)"
    "numClusters r = bestK"
    "metadata r = Some \<lparr>bicScores = Some scores, selectedK = Some bestK\<rparr>"
    by simp
  show "\<exists>r s' scores. clusterSoft ar rnd embeddings options s = Inr (r, s') \<and>
           metadata r = Some \<lparr>bicScores = Some scores, selectedK = Some (numClusters r)\<rparr> \<and>
           scores = fst (candidateScores ar rnd ?vs ?mi [1..?maxK] s) \<and>
           map fst scores = [1..?maxK] \<and>
           1 \<le> numClusters r \<and> numClusters r \<le> ?maxK \<and>
           numClusters r \<le> (case so_maxClusters options of None \<Rightarrow> 10 | Some m \<Rightarrow> m) \<and>
           selectedBy scores (numClusters r) \<and>
           (list_all (\<lambda>(k, b). b \<noteq> NaN) scores \<longrightarrow> lowestBIC scores (numClusters r))"
    using r rng sc lw candidateMax_le(2)[of options "length embeddings"]
    by (intro exI[of _ r] exI[of _ s2] exI[of _ scores]) simp
next
  fix ks bestK bestBIC acc t
  have ne: "map vector embeddings \<noteq> []" using assms(1) by auto
  from bicLoop_scores[of ar rnd "map vector embeddings" mi ks bestK bestBIC acc t]
    candidateScores_keys[OF ne, of ar rnd mi ks t]
  show "\<exists>bk bb.
            bicLoop ar rnd (map vector embeddings) mi ks (bestK, bestBIC, acc, t) =
              (bk, bb, acc @ fst (candidateScores ar rnd (map vector embeddings) mi ks t),
               snd (candidateScores ar rnd (map vector embeddings) mi ks t)) \<and>
            map fst (fst (candidateScores ar rnd (map vector embeddings) mi ks t)) =
              filter (\<lambda>k. 0 < k \<and> k \<le> int (length embeddings)) ks"
    by auto
next
  fix k ks and st :: "int \<times> number \<times> (int \<times> number) list \<times> nat"
  assume "k \<le> 0 \<or> k > int (length embeddings)"
  then have "k \<le> 0 \<or> k > int (length (map vector embeddings))" by simp
  then show "bicLoop ar rnd (map vector embeddings) mi (k # ks) st =
              bicLoop ar rnd (map vector embeddings) mi ks st"
    by (rule bicLoop_skip)
qed

theorem clusterSoft_selects_lowest_BIC_witness:
  "(\<exists>r s' scores. clusterSoft ideal (\<lambda>_. 0)
        [\<lparr>emb_id = ''a'', vector = [Fin 0]\<rparr>, \<lparr>emb_id = ''b'', vector = [Fin 1]\<rparr>]
        \<lparr>so_maxClusters = None, so_minProbability = None, so_useBIC = None,
         so_maxIterations = None\<rparr> 0 = Inr (r, s') \<and>
      metadata r = Some \<lparr>bicScores = Some scores, selectedK = Some (numClusters r)\<rparr> \<and>
      scores = fst (candidateScores ideal (\<lambda>_. 0) [[Fin 0], [Fin 1]] 100 [1, 2] 0) \<and>
      1 \<le> numClusters r \<and> numClusters r \<le> 2 \<and> map fst scores = [1, 2] \<and>
      selectedBy scores (numClusters r)) \<and>
   bicLoop ideal (\<lambda>_. 0) [[Fin 0], [Fin 1]] 100 [0, 1] (1, PInf, [], 0) =
     bicLoop ideal (\<lambda>_. 0) [[Fin 0], [Fin 1]] 100 [1] (1, PInf, [], 0)"
proof -
  let ?es = "[\<lparr>emb_id = ''a'', vector = [Fin 0]\<rparr>, \<lparr>emb_id = ''b'', vector = [Fin 1]\<rparr>]"
  let ?op = "\<lparr>so_maxClusters = None, so_minProbability = None, so_useBIC = None,
         so_maxIterations = None\<rparr>"
  have cm: "candidateMax ?op (length ?es) = 2" by (simp add: candidateMax_def)
  have h: "2 \<le> length ?es" "\<forall>e\<in>set ?es. length (vector e) = 1" "so_useBIC ?op \<noteq> Some False"
    "1 < candidateMax ?op (length ?es)"
    by (simp_all add: candidateMax_def)
  have up: "[1..2::int] = [1, 2]" by (simp add: upto.simps)
  have mi: "(case so_maxIterations ?op of None \<Rightarrow> 100 | Some m \<Rightarrow> m) = (100::int)" by simp
  have vs: "map vector ?es = [[Fin 0], [Fin 1]]" by simp
  note th = clusterSoft_selects_lowest_BIC[OF h, of ideal "\<lambda>_. 0" 0 100]
  have A: "\<exists>r s' scores. clusterSoft ideal (\<lambda>_. 0) ?es ?op 0 = Inr (r, s') \<and>
      metadata r = Some \<lparr>bicScores = Some scores, selectedK = Some (numClusters r)\<rparr> \<and>
      scores = fst (candidateScores ideal (\<lambda>_. 0) [[Fin 0], [Fin 1]] 100 [1, 2] 0) \<and>
      1 \<le> numClusters r \<and> numClusters r \<le> 2 \<and> map fst scores = [1, 2] \<and>
      selectedBy scores (numClusters r)"
    using th[THEN conjunct1] unfolding cm up mi vs
    by (elim exE conjE) (intro exI conjI, assumption+)
  have k0: "(0::int) \<le> 0 \<or> 0 > int (length ?es)" by simp
  have B: "bicLoop ideal (\<lambda>_. 0) [[Fin 0], [Fin 1]] 100 [0, 1] (1, PInf, [], 0) =
     bicLoop ideal (\<lambda>_. 0) [[Fin 0], [Fin 1]] 100 [1] (1, PInf, [], 0)"
    using th[THEN conjunct2, THEN conjunct2, rule_format, OF k0, of "[1]" "(1, PInf, [], 0)"]
    unfolding vs .
  from A B show ?thesis by (rule conjI)
qed

lemma js_le_NaN_right [simp]: "js_le a NaN = False"
  by (cases a) simp_all

lemma js_lt_NaN_right [simp]: "js_lt a NaN = False"
  by (cases a) simp_all

lemma NaN_points:
  "euclideanDistance ar [NaN] [NaN] = NaN"
  "Math_min [NaN] = NaN" "Math_max [NaN] = NaN"
  by (simp_all add: euclideanDistance_def js_nth_def Math_min_def Math_max_def js_min2_def
      js_max2_def)

lemma NaN_kMeans_one:
  "kMeans ar (\<lambda>_. 0) [[NaN], [NaN]] 1 100 s = Inr (([[NaN]], [0, 0]), Suc s)"
  using kMeans_single_cluster[of "[[NaN], [NaN]]" ar "\<lambda>_. 0" 100 s]
  by (simp add: randomIndex_zero numeral_2_eq_2)

lemma NaN_nearest: "nearest ar [NaN] [[NaN], [NaN]] 2 = 0"
  by (simp add: nearest_def nearestStep_def NaN_points numeral_2_eq_2)

lemma NaN_kMeans_two:
  "kMeans ar (\<lambda>_. 0) [[NaN], [NaN]] 2 100 s =
     Inr (([[NaN], [NaN]], [0, 0]), Suc (Suc (Suc s)))"
proof -
  have seed: "kMeansPlusPlusInit ar (\<lambda>_. 0) [[NaN], [NaN]] 2 s =
      ([[NaN], [NaN]], Suc (Suc (Suc s)))"
    by (simp add: kMeansPlusPlusInit_def randomIndex_zero NaN_points Math_random_def)
  have "kMeansLoop ar (Suc 99) [[NaN], [NaN]] 2 [[NaN], [NaN]] [0, 0] =
      ([[NaN], [NaN]], [0, 0])"
    unfolding kMeansLoop_iteration by (simp add: NaN_nearest)
  then have loop: "kMeansLoop ar 100 [[NaN], [NaN]] 2 [[NaN], [NaN]] [0, 0] =
      ([[NaN], [NaN]], [0, 0])"
    by (simp del: kMeansLoop.simps)
  have rep: "replicate (length [[NaN], [NaN]]) (0::nat) = [0, 0]" by simp
  show ?thesis
    unfolding kMeans_def Let_def seed rep using loop by (simp del: kMeansLoop.simps)
qed

lemma NaN_BIC:
  "calculateBIC ar [[NaN], [NaN]] cs [0, 0] = Inr NaN" if "cs ! 0 = [NaN]"
  using that by (simp add: calculateBIC_def NaN_points upt_rec[of 0] upt_rec[of 1] upt_rec[of "Suc 0"])

lemma NaN_selection:
  "bicLoop ar (\<lambda>_. 0) [[NaN], [NaN]] 100 [1, 2] (1, PInf, [], 0) =
     (1, PInf, [(1, NaN), (2, NaN)], 4)"
  by (simp add: NaN_kMeans_one NaN_kMeans_two NaN_BIC eval_nat_numeral)

lemma NaN_softmax: "softmax ar [NaN] t = [NaN]"
  by (simp add: softmax_def NaN_points)

text \<open>
  C4, as stated, gives the selected \<open>k\<close> a score \<open>\<le>\<close> every other score. For two
  points whose coordinate is \<open>NaN\<close> both candidates score \<open>NaN\<close>; the comparison
  \<open>bic < bestBIC\<close> never holds, the selection stays at its initial \<open>k = 1\<close>, and the
  score of the selected \<open>k\<close> is not \<open>\<le>\<close> the score of \<open>k = 2\<close> (nor \<open>\<le>\<close> itself).
  This is so for every rounding of the arithmetic.
\<close>

theorem clusterSoft_NaN_scores_counterexample:
  "(\<forall>ar. clusterSoft ar (\<lambda>_. 0)
        [\<lparr>emb_id = ''a'', vector = [NaN]\<rparr>, \<lparr>emb_id = ''b'', vector = [NaN]\<rparr>]
        \<lparr>so_maxClusters = None, so_minProbability = None, so_useBIC = None,
         so_maxIterations = None\<rparr> 0 =
      Inr (\<lparr>numClusters = 1, softAssignments = [],
            sr_centroids = [\<lparr>cc_clusterId = 0, cc_vector = [NaN]\<rparr>],
            metadata = Some \<lparr>bicScores = Some [(1, NaN), (2, NaN)], selectedK = Some 1\<rparr>\<rparr>, 5)) \<and>
   \<not> js_le NaN NaN \<and> \<not> lowestBIC [(1, NaN), (2, NaN)] 1"
proof -
  let ?es = "[\<lparr>emb_id = ''a'', vector = [NaN]\<rparr>, \<lparr>emb_id = ''b'', vector = [NaN]\<rparr>]"
  let ?op = "\<lparr>so_maxClusters = None, so_minProbability = None, so_useBIC = None,
         so_maxIterations = None\<rparr>"
  have h: "2 \<le> length ?es" "\<forall>e\<in>set ?es. length (vector e) = 1" by simp_all
  have cm: "candidateMax ?op (length ?es) = 2" by (simp add: candidateMax_def)
  have up: "[1..2::int] = [1, 2]" by (simp add: upto.simps)
  have run: "clusterSoft ar (\<lambda>_. 0) ?es ?op 0 =
      Inr (\<lparr>numClusters = 1, softAssignments = [],
            sr_centroids = [\<lparr>cc_clusterId = 0, cc_vector = [NaN]\<rparr>],
            metadata = Some \<lparr>bicScores = Some [(1, NaN), (2, NaN)], selectedK = Some 1\<rparr>\<rparr>, 5)" for ar
  proof -
    have sel: "(if (case so_useBIC ?op of None \<Rightarrow> True | Some u \<Rightarrow> u) \<and>
                  candidateMax ?op (length ?es) > 1
              then bicLoop ar (\<lambda>_. 0) (map vector ?es)
                     (case so_maxIterations ?op of None \<Rightarrow> 100 | Some m \<Rightarrow> m)
                     [1..candidateMax ?op (length ?es)] (1, PInf, [], 0)
              else (candidateMax ?op (length ?es), PInf, [], 0))
            = (1, PInf, [(1, NaN), (2, NaN)], 4)"
      unfolding cm up using NaN_selection[of ar] by simp
    have km: "kMeans ar (\<lambda>_. 0) (map vector ?es) 1
               (case so_maxIterations ?op of None \<Rightarrow> 100 | Some m \<Rightarrow> m) 4 =
              Inr (([[NaN]], [0, 0]), 5)"
      using NaN_kMeans_one[of ar 4] by simp
    show ?thesis
      unfolding clusterSoft_run[OF h sel km]
      by (simp add: softAssignmentsOf_def NaN_points NaN_softmax js_nth_def js_ge_def
          upt_rec[of 0] upt_rec[of 1] upt_rec[of "Suc 0"])
  qed
  have low: "\<not> lowestBIC [(1, NaN), (2, NaN)] 1" by (simp add: lowestBIC_def)
  from run low show ?thesis by simp
qed

section \<open>Mapping a cluster to a concept\<close>

lemma dotProduct_snoc:
  "length xs = length ys \<Longrightarrow>
   dotProduct ar (xs @ [x]) (ys @ [y]) = js_add ar (dotProduct ar xs ys) (js_mul ar x y)"
  by (simp add: dotProduct_def)

lemma cosine_loop:
  "n \<le> length a \<Longrightarrow> n \<le> length b \<Longrightarrow>
   foldl (\<lambda>(dotProduct, normA, normB) i.
            (js_add ar dotProduct (js_mul ar (a ! i) (b ! i)),
             js_add ar normA (js_mul ar (a ! i) (a ! i)),
             js_add ar normB (js_mul ar (b ! i) (b ! i))))
     (Fin 0, Fin 0, Fin 0) [0..<n] =
   (dotProduct ar (take n a) (take n b), dotProduct ar (take n a) (take n a),
    dotProduct ar (take n b) (take n b))"
proof (induction n)
  case 0
  then show ?case by (simp add: dotProduct_def)
next
  case (Suc n)
  then have n: "n < length a" "n < length b" by simp_all
  have ta: "take (Suc n) a = take n a @ [a ! n]" using n(1) by (rule take_Suc_conv_app_nth)
  have tb: "take (Suc n) b = take n b @ [b ! n]" using n(2) by (rule take_Suc_conv_app_nth)
  have l: "length (take n a) = length (take n b)" using n by simp
  show ?case
    using Suc.IH n
    by (simp add: ta tb dotProduct_snoc[OF l] dotProduct_snoc[OF refl])
qed

lemma cosineSimilarity_cosine:
  "length a = length b \<Longrightarrow> cosineSimilarity ar a b = cosine ar a b"
  using cosine_loop[of "length a" a b ar]
  by (simp add: cosineSimilarity_def cosine_def)

lemma cosineSimilarity_mismatch:
  "length a \<noteq> length b \<Longrightarrow> cosineSimilarity ar a b = Fin 0"
  by (simp add: cosineSimilarity_def)

lemma cosineSimilarity_sim_of:
  "cosineSimilarity ar centroid (co_embedding c) = sim_of ar centroid c"
  by (simp add: sim_of_def cosineSimilarity_cosine cosineSimilarity_mismatch)

lemma matchStep_scan:
  "(foldl (matchStep ar centroid th) None concepts = None \<longrightarrow>
      (\<forall>c\<in>set concepts. \<not> js_ge (sim_of ar centroid c) th)) \<and>
   (\<forall>bid bsim. foldl (matchStep ar centroid th) None concepts = Some (bid, bsim) \<longrightarrow>
      (\<exists>i. bestAt ar centroid th concepts i \<and> bid = co_id (concepts ! i) \<and>
           bsim = sim_of ar centroid (concepts ! i)))"
proof (induction concepts rule: rev_induct)
  case Nil
  then show ?case by simp
next
  case (snoc x xs)
  let ?best = "foldl (matchStep ar centroid th) None xs"
  let ?s = "sim_of ar centroid x"
  have step: "foldl (matchStep ar centroid th) None (xs @ [x]) = matchStep ar centroid th ?best x"
    by simp
  show ?case
  proof (cases "js_ge ?s th")
    case False
    then have same: "matchStep ar centroid th ?best x = ?best"
      by (simp add: matchStep_def cosineSimilarity_sim_of)
    have ext: "bestAt ar centroid th (xs @ [x]) i" if "bestAt ar centroid th xs i" for i
      using that False unfolding bestAt_def
      by (auto simp: nth_append less_Suc_eq)
    show ?thesis
      unfolding step same using snoc.IH False ext
      by (auto simp: nth_append bestAt_def)
  next
    case True
    note ge = True
    show ?thesis
    proof (cases ?best)
      case None
      then have new: "matchStep ar centroid th ?best x = Some (co_id x, ?s)"
        using ge by (simp add: matchStep_def cosineSimilarity_sim_of)
      from None snoc.IH have none: "\<forall>c\<in>set xs. \<not> js_ge (sim_of ar centroid c) th" by simp
      have "bestAt ar centroid th (xs @ [x]) (length xs)"
        unfolding bestAt_def using ge none js_ge_not_NaN[OF ge]
        by (auto simp: nth_append less_Suc_eq js_le_refl)
      then show ?thesis unfolding step new by auto
    next
      case (Some p)
      obtain bid bsim where p: "p = (bid, bsim)" by (cases p)
      from Some p snoc.IH obtain i where i: "bestAt ar centroid th xs i" "bid = co_id (xs ! i)"
        "bsim = sim_of ar centroid (xs ! i)" by auto
      have bge: "js_ge bsim th" using i unfolding bestAt_def by simp
      show ?thesis
      proof (cases "js_gt ?s bsim")
        case True
        then have new: "matchStep ar centroid th ?best x = Some (co_id x, ?s)"
          using ge Some p by (simp add: matchStep_def cosineSimilarity_sim_of)
        have lt: "js_lt bsim ?s" using True by (simp add: js_gt_def)
        have "js_lt (sim_of ar centroid (xs ! j)) ?s"
          if "j < length xs" "js_ge (sim_of ar centroid (xs ! j)) th" for j
          using i(1,3) that lt unfolding bestAt_def by (blast intro: js_le_lt_trans)
        then have "bestAt ar centroid th (xs @ [x]) (length xs)"
          unfolding bestAt_def using ge js_ge_not_NaN[OF ge]
          by (auto simp: nth_append less_Suc_eq js_le_refl js_lt_imp_le)
        then show ?thesis unfolding step new by auto
      next
        case False
        then have same: "matchStep ar centroid th ?best x = Some (bid, bsim)"
          using ge Some p by (simp add: matchStep_def cosineSimilarity_sim_of)
        have "js_le ?s bsim"
          using False js_ge_not_NaN[OF ge] js_ge_not_NaN[OF bge]
          by (simp add: js_gt_def js_not_lt_imp_le)
        then have "bestAt ar centroid th (xs @ [x]) i"
          using i(1,3) unfolding bestAt_def by (auto simp: nth_append less_Suc_eq)
        moreover have "i < length xs" using i(1) unfolding bestAt_def by simp
        ultimately show ?thesis unfolding step same using i(2,3)
          by (auto simp: nth_append)
      qed
    qed
  qed
qed

lemma bestAt_greatest:
  assumes "bestAt ar centroid th concepts i" "j < length concepts"
    "sim_of ar centroid (concepts ! j) \<noteq> NaN"
  shows "js_le (sim_of ar centroid (concepts ! j)) (sim_of ar centroid (concepts ! i))"
proof (cases "js_ge (sim_of ar centroid (concepts ! j)) th")
  case True
  with assms(1,2) show ?thesis unfolding bestAt_def by blast
next
  case False
  from assms(1) have ge: "js_ge (sim_of ar centroid (concepts ! i)) th"
    unfolding bestAt_def by simp
  then have "th \<noteq> NaN" using js_ge_not_NaN by blast
  with False assms(3) have "js_lt (sim_of ar centroid (concepts ! j)) th"
    by (cases "sim_of ar centroid (concepts ! j)"; cases th) (auto simp: js_ge_def)
  moreover from ge have "js_le th (sim_of ar centroid (concepts ! i))" by (simp add: js_ge_def)
  ultimately have "js_lt (sim_of ar centroid (concepts ! j)) (sim_of ar centroid (concepts ! i))"
    by (rule js_lt_le_trans)
  then show ?thesis by (rule js_lt_imp_le)
qed

lemma suggestLabel_split:
  "\<exists>p rest. str = p @ rest \<and> set p \<inter> set ''.!?'' = {} \<and>
      (rest = [] \<or> hd rest \<in> set ''.!?'') \<and> suggestLabel str = take 50 p"
proof -
  let ?P = "\<lambda>c. c \<notin> set ''.!?''"
  have a: "str = takeWhile ?P str @ dropWhile ?P str" by simp
  have b: "set (takeWhile ?P str) \<inter> set ''.!?'' = {}"
    using set_takeWhileD[of _ ?P str] by blast
  have c: "dropWhile ?P str = [] \<or> hd (dropWhile ?P str) \<in> set ''.!?''"
    using hd_dropWhile[of ?P str] by blast
  have d: "suggestLabel str = take 50 (takeWhile ?P str)" by (simp add: suggestLabel_def)
  from a b c d show ?thesis by blast
qed

lemma suggestLabel_empty_iff:
  "suggestLabel str = [] \<longleftrightarrow> str = [] \<or> hd str \<in> set ''.!?''"
  by (cases str) (auto simp: suggestLabel_def)

text \<open>
  C9, as the code has it. The similarity of a concept is the cosine
  \<open>a\<cdot>b / (\<bar>a\<bar> \<bar>b\<bar>)\<close> of the centroid and the concept's embedding, computed in the
  arithmetic of the run (or \<open>0\<close> when their lengths differ). \<open>mapCluster\<close> returns
  \<open>matched = true\<close> if and only if some concept's similarity is \<open>\<ge> threshold\<close>; the
  concept reported is then the first one, in input order, of greatest similarity (no
  concept whose similarity is a number is more similar, each earlier concept that reaches
  the threshold is strictly less similar), and the confidence is that similarity.
  Otherwise it returns \<open>matched = false\<close> and the suggested label: the summary is split
  at its first \<open>.\<close>, \<open>!\<close> or \<open>?\<close> (the part before it holds none of the three,
  the rest is empty or begins with one), and the label is the part before, cut to 50
  characters. The label is empty exactly when the summary is empty or begins with one
  of the three separators. This holds for every rounding of the arithmetic.
\<close>

theorem mapCluster_best_match:
  "\<exists>r. mapCluster ar cl concepts th = Inr r \<and> mr_clusterId r = ci_id cl \<and>
      (matched r \<longleftrightarrow> (\<exists>c\<in>set concepts. js_ge (sim_of ar (ci_centroid cl) c) th)) \<and>
      (matched r \<longrightarrow>
         (\<exists>i. bestAt ar (ci_centroid cl) th concepts i \<and>
              (\<forall>j<length concepts. sim_of ar (ci_centroid cl) (concepts ! j) \<noteq> NaN \<longrightarrow>
                 js_le (sim_of ar (ci_centroid cl) (concepts ! j))
                   (sim_of ar (ci_centroid cl) (concepts ! i))) \<and>
              conceptId r = Some (co_id (concepts ! i)) \<and>
              confidence r = Some (sim_of ar (ci_centroid cl) (concepts ! i)) \<and>
              suggestedLabel r = None)) \<and>
      (\<not> matched r \<longrightarrow>
         conceptId r = None \<and> confidence r = None \<and>
         (\<exists>p rest. summary cl = p @ rest \<and> set p \<inter> set ''.!?'' = {} \<and>
                    (rest = [] \<or> hd rest \<in> set ''.!?'') \<and>
                    suggestedLabel r = Some (take 50 p)) \<and>
         (suggestedLabel r = Some [] \<longleftrightarrow>
            summary cl = [] \<or> hd (summary cl) \<in> set ''.!?''))"
proof (cases "foldl (matchStep ar (ci_centroid cl) th) None concepts")
  case None
  with matchStep_scan[of ar "ci_centroid cl" th concepts]
  have no: "\<forall>c\<in>set concepts. \<not> js_ge (sim_of ar (ci_centroid cl) c) th" by simp
  have res: "mapCluster ar cl concepts th =
      Inr \<lparr>mr_clusterId = ci_id cl, matched = False, conceptId = None,
           confidence = None, suggestedLabel = Some (suggestLabel (summary cl))\<rparr>"
    using None by (simp add: mapCluster_def)
  from suggestLabel_split[of "summary cl"] obtain p rest where
    sp: "summary cl = p @ rest" "set p \<inter> set ''.!?'' = {}"
      "rest = [] \<or> hd rest \<in> set ''.!?''" "suggestLabel (summary cl) = take 50 p"
    by blast
  have ex: "\<exists>p rest. summary cl = p @ rest \<and> set p \<inter> set ''.!?'' = {} \<and>
                    (rest = [] \<or> hd rest \<in> set ''.!?'') \<and>
                    Some (suggestLabel (summary cl)) = Some (take 50 p)"
    using sp by blast
  show ?thesis
    unfolding res
    by (rule exI[of _ "\<lparr>mr_clusterId = ci_id cl, matched = False, conceptId = None,
           confidence = None, suggestedLabel = Some (suggestLabel (summary cl))\<rparr>"])
       (use no ex suggestLabel_empty_iff[of "summary cl"] in simp)
next
  case (Some p)
  obtain bid bsim where p: "p = (bid, bsim)" by (cases p)
  with Some matchStep_scan[of ar "ci_centroid cl" th concepts] obtain i where
    i: "bestAt ar (ci_centroid cl) th concepts i" "bid = co_id (concepts ! i)"
       "bsim = sim_of ar (ci_centroid cl) (concepts ! i)"
    by auto
  then have "concepts ! i \<in> set concepts" "js_ge (sim_of ar (ci_centroid cl) (concepts ! i)) th"
    unfolding bestAt_def by simp_all
  then have ex: "\<exists>c\<in>set concepts. js_ge (sim_of ar (ci_centroid cl) c) th" by blast
  have top: "\<forall>j<length concepts. sim_of ar (ci_centroid cl) (concepts ! j) \<noteq> NaN \<longrightarrow>
      js_le (sim_of ar (ci_centroid cl) (concepts ! j)) (sim_of ar (ci_centroid cl) (concepts ! i))"
    using bestAt_greatest[OF i(1)] by blast
  have res: "mapCluster ar cl concepts th =
      Inr \<lparr>mr_clusterId = ci_id cl, matched = True, conceptId = Some bid,
           confidence = Some bsim, suggestedLabel = None\<rparr>"
    using Some p by (simp add: mapCluster_def)
  show ?thesis
    unfolding res using i ex top by (intro exI conjI) auto
qed

lemma sim_of_examples:
  "sim_of ideal [Fin 1, Fin 0] \<lparr>co_id = i0, co_label = l0, co_embedding = [Fin 1, Fin 0]\<rparr> = Fin 1"
  "sim_of ideal [Fin 1, Fin 0] \<lparr>co_id = i1, co_label = l1, co_embedding = [Fin 0, Fin 1]\<rparr> = Fin 0"
  by (simp_all add: sim_of_def cosine_def dotProduct_def ideal_ops)

lemma cosineSimilarity_example: "cosineSimilarity ideal [Fin 1, Fin 0] [Fin 0, Fin 1] = Fin 0"
  by (simp add: cosineSimilarity_cosine cosine_def dotProduct_def ideal_ops)

theorem mapCluster_best_match_witness:
  "\<exists>r. mapCluster ideal \<lparr>ci_id = 1, summary = ''React hooks and state management'',
                     ci_centroid = [Fin 1, Fin 0]\<rparr>
          [\<lparr>co_id = ''programming/react-hooks'', co_label = ''React Hooks'',
            co_embedding = [Fin 1, Fin 0]\<rparr>,
           \<lparr>co_id = ''programming/vue'', co_label = ''Vue.js'', co_embedding = [Fin 0, Fin 1]\<rparr>]
          (Fin (4 / 5)) = Inr r \<and>
        matched r \<and> conceptId r = Some ''programming/react-hooks'' \<and> confidence r = Some (Fin 1)"
proof -
  let ?cl = "\<lparr>ci_id = 1, summary = ''React hooks and state management'',
                     ci_centroid = [Fin 1, Fin 0]\<rparr>"
  let ?c0 = "\<lparr>co_id = ''programming/react-hooks'', co_label = ''React Hooks'',
            co_embedding = [Fin 1, Fin 0]\<rparr>"
  let ?c1 = "\<lparr>co_id = ''programming/vue'', co_label = ''Vue.js'', co_embedding = [Fin 0, Fin 1]\<rparr>"
  have s0: "sim_of ideal [Fin 1, Fin 0] ?c0 = Fin 1" by (rule sim_of_examples)
  have s1: "sim_of ideal [Fin 1, Fin 0] ?c1 = Fin 0" by (rule sim_of_examples)
  from mapCluster_best_match[of ideal ?cl "[?c0, ?c1]" "Fin (4 / 5)"] obtain r where
    r: "mapCluster ideal ?cl [?c0, ?c1] (Fin (4 / 5)) = Inr r"
    and m: "matched r \<longleftrightarrow> (\<exists>c\<in>set [?c0, ?c1]. js_ge (sim_of ideal (ci_centroid ?cl) c) (Fin (4 / 5)))"
    and b: "matched r \<longrightarrow>
         (\<exists>i. bestAt ideal (ci_centroid ?cl) (Fin (4 / 5)) [?c0, ?c1] i \<and>
              conceptId r = Some (co_id ([?c0, ?c1] ! i)) \<and>
              confidence r = Some (sim_of ideal (ci_centroid ?cl) ([?c0, ?c1] ! i)) \<and>
              suggestedLabel r = None)"
    by blast
  have mr: "matched r" using m s0 by (simp add: js_ge_def)
  with b obtain i where i: "bestAt ideal [Fin 1, Fin 0] (Fin (4 / 5)) [?c0, ?c1] i"
    "conceptId r = Some (co_id ([?c0, ?c1] ! i))"
    "confidence r = Some (sim_of ideal [Fin 1, Fin 0] ([?c0, ?c1] ! i))" by auto
  have "i = 0"
  proof (rule ccontr)
    assume "i \<noteq> 0"
    moreover have "i < 2" using i(1) unfolding bestAt_def by simp
    ultimately have "i = 1" by simp
    then show False using i(1) s1 unfolding bestAt_def by (simp add: js_ge_def)
  qed
  then show ?thesis using r mr i(2,3) s0 by simp
qed

text \<open>
  C9, as stated, promises a non-empty suggested label whenever nothing matches. The
  summary \<open>.NET runtime internals\<close> begins with a separator: the text before it is
  empty, and so is the label, whatever the rounding of the arithmetic and the concepts
  are, as long as none of them matches (here there is none).
\<close>

theorem mapCluster_empty_label_counterexample:
  "(\<forall>ar. mapCluster ar \<lparr>ci_id = 2, summary = ''.NET runtime internals'', ci_centroid = [Fin 1, Fin 0]\<rparr>
     [] (Fin (4 / 5)) =
   Inr \<lparr>mr_clusterId = 2, matched = False, conceptId = None, confidence = None,
        suggestedLabel = Some []\<rparr>) \<and>
   mapCluster ideal \<lparr>ci_id = 2, summary = ''.NET runtime internals'', ci_centroid = [Fin 1, Fin 0]\<rparr>
     [\<lparr>co_id = ''programming/react'', co_label = ''React'', co_embedding = [Fin 0, Fin 1]\<rparr>]
     (Fin (4 / 5)) =
   Inr \<lparr>mr_clusterId = 2, matched = False, conceptId = None, confidence = None,
        suggestedLabel = Some []\<rparr>"
  by (simp add: mapCluster_def matchStep_def cosineSimilarity_example suggestLabel_def js_ge_def)

text \<open>
  C10. \<open>cosineSimilarity\<close> of vectors of different lengths is \<open>0\<close>, not an error.
  \<open>mapCluster\<close> returns a result for every centroid, catalogue and threshold. When the
  reported concept id belongs only to concepts whose embedding length differs from the
  centroid's, the threshold is \<open>\<le> 0\<close> and the confidence is \<open>0\<close>. This holds for every
  rounding of the arithmetic.
\<close>

theorem mapCluster_dimension_mismatch:
  "(length a \<noteq> length b \<longrightarrow> cosineSimilarity ar a b = Fin 0) \<and>
   (\<exists>r. mapCluster ar cl concepts th = Inr r \<and>
      (matched r \<and>
       (\<forall>c\<in>set concepts. Some (co_id c) = conceptId r \<longrightarrow>
           length (co_embedding c) \<noteq> length (ci_centroid cl)) \<longrightarrow>
       js_le th (Fin 0) \<and> confidence r = Some (Fin 0)))"
proof (intro conjI impI)
  assume "length a \<noteq> length b"
  then show "cosineSimilarity ar a b = Fin 0" by (rule cosineSimilarity_mismatch)
next
  show "\<exists>r. mapCluster ar cl concepts th = Inr r \<and>
      (matched r \<and>
       (\<forall>c\<in>set concepts. Some (co_id c) = conceptId r \<longrightarrow>
           length (co_embedding c) \<noteq> length (ci_centroid cl)) \<longrightarrow>
       js_le th (Fin 0) \<and> confidence r = Some (Fin 0))"
  proof (cases "foldl (matchStep ar (ci_centroid cl) th) None concepts")
    case None
    then show ?thesis by (simp add: mapCluster_def)
  next
    case (Some p)
    obtain bid bsim where p: "p = (bid, bsim)" by (cases p)
    with Some matchStep_scan[of ar "ci_centroid cl" th concepts] obtain i where
      i: "bestAt ar (ci_centroid cl) th concepts i" "bid = co_id (concepts ! i)"
         "bsim = sim_of ar (ci_centroid cl) (concepts ! i)"
      by auto
    have mem: "concepts ! i \<in> set concepts" and ge: "js_ge bsim th"
      using i unfolding bestAt_def by simp_all
    have "js_le th (Fin 0) \<and> bsim = Fin 0"
      if "\<forall>c\<in>set concepts. co_id c = bid \<longrightarrow> length (co_embedding c) \<noteq> length (ci_centroid cl)"
    proof -
      from that mem i(2) have "length (ci_centroid cl) \<noteq> length (co_embedding (concepts ! i))"
        by auto
      then have "bsim = Fin 0"
        unfolding i(3) cosineSimilarity_sim_of[symmetric] by (rule cosineSimilarity_mismatch)
      with ge show ?thesis by (simp add: js_ge_def)
    qed
    then show ?thesis using Some p by (auto simp: mapCluster_def)
  qed
qed

theorem mapCluster_dimension_mismatch_witness:
  "cosineSimilarity ideal [Fin 1] [Fin 1, Fin 2] = Fin 0 \<and>
   mapCluster ideal \<lparr>ci_id = 3, summary = ''Graph databases'', ci_centroid = [Fin 1]\<rparr>
     [\<lparr>co_id = ''data/graphs'', co_label = ''Graphs'', co_embedding = [Fin 1, Fin 2]\<rparr>] (Fin 0) =
   Inr \<lparr>mr_clusterId = 3, matched = True, conceptId = Some ''data/graphs'',
        confidence = Some (Fin 0), suggestedLabel = None\<rparr> \<and>
   js_le (Fin 0) (Fin 0)"
proof -
  let ?cl = "\<lparr>ci_id = 3, summary = ''Graph databases'', ci_centroid = [Fin 1]\<rparr>"
  let ?cs = "[\<lparr>co_id = ''data/graphs'', co_label = ''Graphs'', co_embedding = [Fin 1, Fin 2]\<rparr>]"
  have ev: "mapCluster ideal ?cl ?cs (Fin 0) =
      Inr \<lparr>mr_clusterId = 3, matched = True, conceptId = Some ''data/graphs'',
        confidence = Some (Fin 0), suggestedLabel = None\<rparr>"
    by (simp add: mapCluster_def matchStep_def cosineSimilarity_def js_ge_def)
  from mapCluster_dimension_mismatch[of "[Fin 1]" "[Fin 1, Fin 2]" ideal ?cl ?cs "Fin 0"]
  have "cosineSimilarity ideal [Fin 1] [Fin 1, Fin 2] = Fin 0" by simp
  then show ?thesis using ev by simp
qed

end
